theory Spec2Isabelle
  imports Main "HOL-Library.Word" "HOL-Library.Code_Target_Numeral"
begin

section \<open>The vector of \<^verbatim>\<open>vectori.h\<close>: data model\<close>

text \<open>
  The header declares
  \<^verbatim>\<open>typedef struct vector { int32_t typeSize; size_t length; size_t iterator; void_t* data; } vector;\<close>
  \<^item> \<open>typeSize\<close> is a signed 32-bit value; wherever it meets a \<open>size_t\<close> in an
    expression C converts it to \<open>size_t\<close> by sign extension (\<open>scast\<close>);
  \<^item> \<open>length\<close> (the allocated size, in bytes) and \<open>iterator\<close> (the live size, in
    bytes) are \<open>size_t\<close>, taken as 64 bits wide; their arithmetic wraps around;
  \<^item> \<open>data\<close> points to a block obtained from the allocator, or is \<open>NULL\<close>. The
    vector is the only owner of that block, so the pointer and the block it points to
    are one field here: \<open>None\<close> is \<open>NULL\<close>, \<open>Some bs\<close> is a pointer to a live
    block whose bytes are \<open>bs\<close> (its allocated size is the length of \<open>bs\<close>).
  The field \<open>length\<close> is named \<open>length_v\<close>, since \<open>length\<close> is the length of a
  HOL list.
\<close>

type_synonym byte = "8 word"
type_synonym size_t = "64 word"
type_synonym int32_t = "32 word"
type_synonym block = "byte list"

record vector =
  typeSize :: int32_t
  length_v :: size_t
  iterator :: size_t
  data :: "block option"

text \<open>\<open>(size_t) vector->typeSize\<close>, the conversion C inserts in every mixed expression.\<close>

definition tsz :: "vector \<Rightarrow> size_t" where
  "tsz v = scast (typeSize v)"

text \<open>
  What a call leaves behind: the value it returns, the vector it was given (updated in
  place by the C code) and whether every byte it read or wrote lay inside the block
  it was addressed through. A call with \<open>inbounds = False\<close> has undefined behaviour
  in C; the model then still follows the control flow of the function for the fields
  and the return value, and leaves the block as the offending copy found it.
\<close>

record 'r outcome =
  ret :: 'r
  vec :: vector
  inbounds :: bool

subsection \<open>Memory: the block behind \<open>data\<close>\<close>

text \<open>
  Offsets are relative to the pointer and are integers, as the pointer arithmetic of
  the source adds both \<open>size_t\<close> and \<open>int32_t\<close> values. A copy of zero bytes
  touches nothing. A copy of \<open>n > 0\<close> bytes is inside the block when the pointer is
  not \<open>NULL\<close> and \<open>[off, off + n)\<close> is within the allocated size.
\<close>

definition in_block :: "block option \<Rightarrow> int \<Rightarrow> nat \<Rightarrow> bool" where
  "in_block p off n =
     (n = 0 \<or> (case p of None \<Rightarrow> False
                | Some bs \<Rightarrow> 0 \<le> off \<and> off + int n \<le> int (length bs)))"

definition mem_read :: "block option \<Rightarrow> int \<Rightarrow> nat \<Rightarrow> byte list" where
  "mem_read p off n =
     (case p of None \<Rightarrow> [] | Some bs \<Rightarrow> take n (drop (nat off) bs))"

definition mem_write :: "block option \<Rightarrow> int \<Rightarrow> byte list \<Rightarrow> block option" where
  "mem_write p off src =
     (case p of None \<Rightarrow> None
      | Some bs \<Rightarrow> Some (take (nat off) bs @ src @ drop (nat off + length src) bs))"

text \<open>
  \<open>memmove(data + dst, data + src, n)\<close> inside one block: the \<open>n\<close> bytes are read
  first and written afterwards, which is what makes \<open>memmove\<close> safe on overlapping
  ranges. The result is the block and the in-bounds flag.
\<close>

definition memmove_within :: "block option \<Rightarrow> int \<Rightarrow> int \<Rightarrow> nat \<Rightarrow> block option \<times> bool" where
  "memmove_within p dst src n =
     (if n = 0 then (p, True)
      else if in_block p src n \<and> in_block p dst n
      then (mem_write p dst (mem_read p src n), True)
      else (p, False))"

text \<open>
  \<open>memcpy(data + dst, src, n)\<close> and \<open>memmove(data + dst, src, n)\<close> from memory of
  the caller, given as the bytes \<open>src\<close> that can be read there: reading more than
  \<open>length src\<close> bytes is out of bounds as well.
\<close>

definition memcpy_from :: "block option \<Rightarrow> int \<Rightarrow> byte list \<Rightarrow> nat \<Rightarrow> block option \<times> bool" where
  "memcpy_from p dst src n =
     (if n = 0 then (p, True)
      else if in_block p dst n \<and> n \<le> length src
      then (mem_write p dst (take n src), True)
      else (p, False))"

subsection \<open>The allocator\<close>

text \<open>
  \<open>calloc\<close> and \<open>realloc\<close> belong to the host. Whether a request is granted is
  not decided by the vector, so each call that allocates takes the allocator's answer
  as an argument: \<open>Refuses\<close> (the call returns \<open>NULL\<close>) or \<open>Grants junk\<close>, where
  \<open>junk i\<close> is the indeterminate byte found at offset \<open>i\<close> of memory that
  \<open>realloc\<close> hands out uninitialised. A refused \<open>realloc\<close> leaves the old block
  alive. \<open>calloc\<close> zeroes the block and refuses when the product of its arguments
  does not fit \<open>size_t\<close>. A request for zero bytes is answered like any other, by
  \<open>NULL\<close> or by a block of no bytes; the C library decides which.
\<close>

datatype allocator = Refuses | Grants "nat \<Rightarrow> byte"

definition calloc :: "allocator \<Rightarrow> size_t \<Rightarrow> size_t \<Rightarrow> block option" where
  "calloc a nmemb sz =
     (case a of Refuses \<Rightarrow> None
      | Grants junk \<Rightarrow>
          if uint nmemb * uint sz < 2 ^ 64
          then Some (replicate (unat nmemb * unat sz) 0) else None)"

definition realloc :: "allocator \<Rightarrow> block option \<Rightarrow> size_t \<Rightarrow> block option" where
  "realloc a p sz =
     (case a of Refuses \<Rightarrow> None
      | Grants junk \<Rightarrow>
          Some (case p of None \<Rightarrow> map junk [0..<unat sz]
                | Some bs \<Rightarrow> take (unat sz) bs @ map junk [length bs..<unat sz]))"

section \<open>The operations\<close>

text \<open>
  Every function of the header that works on the fields or on the block, with the
  source quoted above its definition. \<open>vector_qsort\<close> hands the live range to the
  \<open>qsort\<close> of the C library with a comparator of the caller, and
  \<open>vector_cpystr\<close> does not take a vector; neither is needed below.
\<close>

definition VECTOR_DEFAULT_LENGTH :: size_t where
  "VECTOR_DEFAULT_LENGTH = 32"

definition VECTOR_MIN :: "size_t \<Rightarrow> size_t \<Rightarrow> size_t" where
  "VECTOR_MIN X Y = (if X < Y then X else Y)"

definition VECTOR_MAX :: "size_t \<Rightarrow> size_t \<Rightarrow> size_t" where
  "VECTOR_MAX X Y = (if X > Y then X else Y)"

text \<open>
  \<^verbatim>\<open>size_t len = (size_t)(reserve * VECTOR_DEFAULT_LENGTH);
  return (vector) { typeSize, len * typeSize, 0, (reserve)? calloc(len, typeSize) : NULL };\<close>
\<close>

definition vector_calloc :: "allocator \<Rightarrow> int32_t \<Rightarrow> bool \<Rightarrow> vector" where
  "vector_calloc a ts reserve =
     (let len = (if reserve then 1 else 0) * VECTOR_DEFAULT_LENGTH
      in \<lparr> typeSize = ts, length_v = len * scast ts, iterator = 0,
           data = (if reserve then calloc a len (scast ts) else None) \<rparr>)"

definition vector_calloc2 :: "allocator \<Rightarrow> int32_t \<Rightarrow> size_t \<Rightarrow> bool \<Rightarrow> vector" where
  "vector_calloc2 a ts len0 reserve =
     (let len = (if reserve then 1 else 0) * len0
      in \<lparr> typeSize = ts, length_v = len * scast ts, iterator = 0,
           data = (if reserve then calloc a len (scast ts) else None) \<rparr>)"

text \<open>
  \<^verbatim>\<open>if (vector == NULL || vector->data == NULL) return false;
  free(vector->data); vector->data = NULL; return true;\<close>
  The argument is a pointer to the struct, which may itself be \<open>NULL\<close>.
\<close>

definition vector_free :: "vector option \<Rightarrow> bool \<times> vector option" where
  "vector_free p =
     (case p of None \<Rightarrow> (False, None)
      | Some v \<Rightarrow> if data v = None then (False, Some v)
                  else (True, Some (v\<lparr>data := None\<rparr>)))"

text \<open>
  \<^verbatim>\<open>void_t* data = realloc(vector->data, length * vector->typeSize);
  if (data != NULL) { vector->data = data; vector->length = length * vector->typeSize; return true; }
  return false;\<close>
\<close>

definition vector_realloc :: "allocator \<Rightarrow> vector \<Rightarrow> size_t \<Rightarrow> bool outcome" where
  "vector_realloc a v len =
     (case realloc a (data v) (len * tsz v) of
        Some blk \<Rightarrow> \<lparr> ret = True,
                      vec = v\<lparr>data := Some blk, length_v := len * tsz v\<rparr>,
                      inbounds = True \<rparr>
      | None \<Rightarrow> \<lparr> ret = False, vec = v, inbounds = True \<rparr>)"

text \<open>
  Several guards of the source test \<^verbatim>\<open>&vector->data == NULL\<close>: the address of the
  field \<open>data\<close> inside the struct that the caller passed, not the pointer stored in
  that field. The address of a member of an existing object is never \<open>NULL\<close>,
  whatever the field holds.
\<close>

definition data_field_addr_is_null :: "vector \<Rightarrow> bool" where
  "data_field_addr_is_null v = False"

text \<open>\<^verbatim>\<open>return &vector->data != NULL;\<close>\<close>

definition vector_isalloc :: "vector \<Rightarrow> bool" where
  "vector_isalloc v = (\<not> data_field_addr_is_null v)"

definition vector_bytesize :: "vector \<Rightarrow> size_t" where
  "vector_bytesize v = length_v v"

text \<open>
  The divisions are unsigned 64-bit divisions by \<open>(size_t) typeSize\<close>. Dividing by
  zero traps in C and is \<open>0\<close> in HOL, so the three counts return \<open>None\<close> for the
  trap.
\<close>

definition vector_maxsize :: "vector \<Rightarrow> size_t option" where
  "vector_maxsize v = (if tsz v = 0 then None else Some (length_v v div tsz v))"

definition vector_typesize :: "vector \<Rightarrow> size_t" where
  "vector_typesize v = tsz v"

definition vector_length :: "vector \<Rightarrow> size_t option" where
  "vector_length v = (if tsz v = 0 then None else Some (length_v v div tsz v))"

definition vector_count :: "vector \<Rightarrow> size_t option" where
  "vector_count v = (if tsz v = 0 then None else Some (iterator v div tsz v))"

text \<open>
  \<^verbatim>\<open>if (&vector->data == NULL || (iterator * vector->typeSize) < 0 || (iterator*vector->typeSize) > vector->length)
      return false;
  vector->iterator = iterator * vector->typeSize; return true;\<close>
\<close>

definition vector_move :: "vector \<Rightarrow> size_t \<Rightarrow> bool outcome" where
  "vector_move v pos =
     (if data_field_addr_is_null v \<or> pos * tsz v < 0 \<or> pos * tsz v > length_v v
      then \<lparr> ret = False, vec = v, inbounds = True \<rparr>
      else \<lparr> ret = True, vec = v\<lparr>iterator := pos * tsz v\<rparr>, inbounds = True \<rparr>)"

text \<open>
  \<^verbatim>\<open>for(size_t i = 0; i < vector->length; i += vector->typeSize)
      memcpy((int08_t*)vector->data + i, data, vector->typeSize);\<close>
  The counter wraps around like every \<open>size_t\<close>, and with \<open>typeSize = 0\<close> it
  never moves: the loop need not end, and \<open>None\<close> stands for a loop that runs for
  ever.
\<close>

partial_function (option) clear_loop ::
  "vector \<Rightarrow> byte list \<Rightarrow> size_t \<Rightarrow> block option \<Rightarrow> bool \<Rightarrow> (block option \<times> bool) option" where
  "clear_loop v d i p ok =
     (if i < length_v v
      then clear_loop v d (i + tsz v)
             (fst (memcpy_from p (uint i) d (unat (tsz v))))
             (ok \<and> snd (memcpy_from p (uint i) d (unat (tsz v))))
      else Some (p, ok))"

declare clear_loop.simps [code]

text \<open>
  \<^verbatim>\<open>if (&vector->data == NULL || vector->length <= 0) return false;
  for (...) ...;
  vector->iterator = 0; return true;\<close>
\<close>

definition vector_clear :: "vector \<Rightarrow> byte list \<Rightarrow> bool outcome option" where
  "vector_clear v d =
     (if data_field_addr_is_null v \<or> length_v v \<le> 0
      then Some \<lparr> ret = False, vec = v, inbounds = True \<rparr>
      else case clear_loop v d 0 (data v) True of
             None \<Rightarrow> None
           | Some (p, ok) \<Rightarrow>
               Some \<lparr> ret = True, vec = v\<lparr>data := p, iterator := 0\<rparr>, inbounds = ok \<rparr>)"

text \<open>
  \<^verbatim>\<open>size_t byteIndex = index * vector->typeSize;
  if (vector->iterator == vector->length)
      vector_realloc(vector, vector->length << 1);
  if (&vector->data == NULL || byteIndex < 0 || byteIndex > vector->iterator)
      return false;
  memmove((int08_t*)vector->data + (byteIndex + vector->typeSize), (int08_t*)vector->data + byteIndex, vector->iterator - byteIndex);
  memcpy((int08_t*)vector->data + byteIndex, data, vector->typeSize);
  vector->iterator += vector->typeSize;
  return true;\<close>
  The value returned by \<open>vector_realloc\<close> is dropped; only its effect on the vector
  stays. \<open>d\<close> is the memory behind the argument \<open>data\<close>, outside the vector's block.
\<close>

definition vector_insert :: "allocator \<Rightarrow> vector \<Rightarrow> byte list \<Rightarrow> size_t \<Rightarrow> bool outcome" where
  "vector_insert a v d index =
     (let byteIndex = index * tsz v;
          v1 = (if iterator v = length_v v
                then vec (vector_realloc a v (push_bit 1 (length_v v))) else v)
      in if data_field_addr_is_null v1 \<or> byteIndex < 0 \<or> byteIndex > iterator v1
         then \<lparr> ret = False, vec = v1, inbounds = True \<rparr>
         else
           let m1 = memmove_within (data v1) (uint (byteIndex + tsz v1)) (uint byteIndex)
                      (unat (iterator v1 - byteIndex));
               m2 = memcpy_from (fst m1) (uint byteIndex) d (unat (tsz v1))
           in \<lparr> ret = True,
                vec = v1\<lparr>data := fst m2, iterator := iterator v1 + tsz v1\<rparr>,
                inbounds = (snd m1 \<and> snd m2) \<rparr>)"

text \<open>
  \<^verbatim>\<open>if (&vector->data == NULL || byteIndex < 0 || byteIndex >= vector->iterator) return false;
  memcpy((int08_t*)vector->data + byteIndex, data, vector->typeSize); return true;\<close>
\<close>

definition vector_replace :: "vector \<Rightarrow> byte list \<Rightarrow> size_t \<Rightarrow> bool outcome" where
  "vector_replace v d index =
     (let byteIndex = index * tsz v
      in if data_field_addr_is_null v \<or> byteIndex < 0 \<or> byteIndex \<ge> iterator v
         then \<lparr> ret = False, vec = v, inbounds = True \<rparr>
         else
           let m = memcpy_from (data v) (uint byteIndex) d (unat (tsz v))
           in \<lparr> ret = True, vec = v\<lparr>data := fst m\<rparr>, inbounds = snd m \<rparr>)"

text \<open>The same guard, then \<^verbatim>\<open>memmove((int08_t*)vector->data + byteIndex, data, byteCount)\<close>.\<close>

definition vector_replace_unsafe ::
  "vector \<Rightarrow> byte list \<Rightarrow> size_t \<Rightarrow> size_t \<Rightarrow> bool outcome" where
  "vector_replace_unsafe v d index byteCount =
     (let byteIndex = index * tsz v
      in if data_field_addr_is_null v \<or> byteIndex < 0 \<or> byteIndex \<ge> iterator v
         then \<lparr> ret = False, vec = v, inbounds = True \<rparr>
         else
           let m = memcpy_from (data v) (uint byteIndex) d (unat byteCount)
           in \<lparr> ret = True, vec = v\<lparr>data := fst m\<rparr>, inbounds = snd m \<rparr>)"

text \<open>
  \<^verbatim>\<open>size_t byteIndex = index * vector->typeSize;
  if (vector->data == NULL || byteIndex < 0 || byteIndex > vector->iterator) return false;
  vector->iterator -= (vector->iterator > 0)? vector->typeSize : 0;
  memmove((int08_t*)vector->data + byteIndex, (int08_t*)vector->data + byteIndex + vector->typeSize, vector->iterator - byteIndex);
  return true;\<close>
  The source pointer is \<open>data + byteIndex\<close> moved by the \<open>int32_t\<close> value
  \<open>typeSize\<close>; the number of bytes is computed from the iterator after it was
  decremented, in \<open>size_t\<close>.
\<close>

definition vector_remove :: "vector \<Rightarrow> size_t \<Rightarrow> bool outcome" where
  "vector_remove v index =
     (let byteIndex = index * tsz v
      in if data v = None \<or> byteIndex < 0 \<or> byteIndex > iterator v
         then \<lparr> ret = False, vec = v, inbounds = True \<rparr>
         else
           let it = iterator v - (if iterator v > 0 then tsz v else 0);
               m = memmove_within (data v) (uint byteIndex)
                     (uint byteIndex + sint (typeSize v)) (unat (it - byteIndex))
           in \<lparr> ret = True, vec = v\<lparr>iterator := it, data := fst m\<rparr>, inbounds = snd m \<rparr>)"

text \<open>
  \<^verbatim>\<open>if (&vector->data == NULL || byteIndex < 0 || byteIndex > vector->iterator) return NULL;
  return (int08_t*)vector->data + byteIndex;\<close>
  A pointer is \<open>NULL\<close>, or an offset into the vector's block, or (when \<open>data\<close> is
  \<open>NULL\<close> and the offset is not zero) a small address that belongs to no block.
\<close>

datatype pointer = Null | Into_data int | Wild size_t

definition vector_get :: "vector \<Rightarrow> size_t \<Rightarrow> pointer" where
  "vector_get v index =
     (let byteIndex = index * tsz v
      in if data_field_addr_is_null v \<or> byteIndex < 0 \<or> byteIndex > iterator v
         then Null
         else case data v of
                None \<Rightarrow> (if byteIndex = 0 then Null else Wild byteIndex)
              | Some bs \<Rightarrow> Into_data (uint byteIndex))"

text \<open>Reading \<open>n\<close> bytes through a pointer that \<open>vector_get\<close> returned.\<close>

definition deref :: "vector \<Rightarrow> pointer \<Rightarrow> nat \<Rightarrow> byte list option" where
  "deref v p n =
     (case p of Into_data off \<Rightarrow>
                  (if in_block (data v) off n then Some (mem_read (data v) off n) else None)
      | _ \<Rightarrow> None)"

text \<open>
  \<^verbatim>\<open>if (outLen != NULL) {
      (*outLen) = VECTOR_MIN(0, VECTOR_MAX(last - first, last));
      char_t* string = (char_t*) calloc((*outLen) + 1, sizeof(char_t));
      memmove(string, vector->data, (*outLen));
      return string;
  } else {
      size_t length = VECTOR_MIN(0, VECTOR_MAX(last - first, last));
      char_t* string = (char_t*) calloc(length + 1, sizeof(char_t));
      memmove(string, vector->data, length);
      return string;
  }\<close>
  \<open>outLen\<close> is \<open>None\<close> for a \<open>NULL\<close> pointer and \<open>Some x\<close> for a pointer to a
  \<open>size_t\<close> holding \<open>x\<close>. The call returns the new string (\<open>None\<close> when
  \<open>calloc\<close> returned \<open>NULL\<close>) and what \<open>outLen\<close> points to afterwards.
\<close>

definition memmove_across ::
  "block option \<Rightarrow> block option \<Rightarrow> nat \<Rightarrow> block option \<times> bool" where
  "memmove_across dst src n =
     (if n = 0 then (dst, True)
      else if in_block src 0 n \<and> in_block dst 0 n
      then (mem_write dst 0 (mem_read src 0 n), True)
      else (dst, False))"

definition vector_makestr ::
  "allocator \<Rightarrow> vector \<Rightarrow> size_t \<Rightarrow> size_t \<Rightarrow> size_t option
     \<Rightarrow> (block option \<times> size_t option) outcome" where
  "vector_makestr a v first last' outLen =
     (case outLen of
        Some _ \<Rightarrow>
          (let out = VECTOR_MIN 0 (VECTOR_MAX (last' - first) last');
               string = calloc a (out + 1) 1;
               m = memmove_across string (data v) (unat out)
           in \<lparr> ret = (fst m, Some out), vec = v, inbounds = snd m \<rparr>)
      | None \<Rightarrow>
          (let len = VECTOR_MIN 0 (VECTOR_MAX (last' - first) last');
               string = calloc a (len + 1) 1;
               m = memmove_across string (data v) (unat len)
           in \<lparr> ret = (fst m, None), vec = v, inbounds = snd m \<rparr>))"

section \<open>Sequences of calls\<close>

text \<open>
  A caller drives one vector through a sequence of calls. Each call that reaches the
  allocator carries the allocator's answer. A call has one of three ends:
  \<^item> \<open>Returns ok v'\<close>: every copy of the call stayed inside the block, the call
    reported \<open>ok\<close> (true, or a pointer other than \<open>NULL\<close> for \<open>vector_get\<close>) and
    left the vector \<open>v'\<close>;
  \<^item> \<open>Undefined\<close>: the call read or wrote outside the block (or through \<open>NULL\<close>);
    its behaviour is undefined in C, and nothing is said of a return value or of the
    vector afterwards;
  \<^item> \<open>Diverges\<close>: the loop of \<open>vector_clear\<close> runs for ever.
  \<open>run\<close> lists the ends of the calls of a sequence, and stops at the first call that
  does not return.
\<close>

datatype call =
    Realloc allocator size_t
  | Move size_t
  | Clear "byte list"
  | Insert allocator "byte list" size_t
  | Replace "byte list" size_t
  | Replace_unsafe "byte list" size_t size_t
  | Remove size_t
  | Get size_t
  | Free

datatype step = Returns bool vector | Undefined | Diverges

definition step_of :: "bool outcome \<Rightarrow> step" where
  "step_of r = (if inbounds r then Returns (ret r) (vec r) else Undefined)"

fun exec :: "vector \<Rightarrow> call \<Rightarrow> step" where
  "exec v (Realloc a n) = step_of (vector_realloc a v n)"
| "exec v (Move pos) = step_of (vector_move v pos)"
| "exec v (Clear d) =
     (case vector_clear v d of None \<Rightarrow> Diverges | Some r \<Rightarrow> step_of r)"
| "exec v (Insert a d i) = step_of (vector_insert a v d i)"
| "exec v (Replace d i) = step_of (vector_replace v d i)"
| "exec v (Replace_unsafe d i n) = step_of (vector_replace_unsafe v d i n)"
| "exec v (Remove i) = step_of (vector_remove v i)"
| "exec v (Get i) = Returns (vector_get v i \<noteq> Null) v"
| "exec v Free =
     (case vector_free (Some v) of
        (b, Some v') \<Rightarrow> Returns b v'
      | (b, None) \<Rightarrow> Returns b v)"

fun run :: "vector \<Rightarrow> call list \<Rightarrow> step list" where
  "run v [] = []"
| "run v (c # cs) =
     (case exec v c of
        Returns ok v' \<Rightarrow> Returns ok v' # run v' cs
      | Undefined \<Rightarrow> [Undefined]
      | Diverges \<Rightarrow> [Diverges])"

section \<open>Predicates of the specification\<close>

text \<open>
  An allocated container: \<open>data\<close> points to a block, and the block has the
  \<open>length\<close> bytes that \<open>calloc\<close> or \<open>realloc\<close> was asked for.
\<close>

definition allocated :: "vector \<Rightarrow> bool" where
  "allocated v =
     (case data v of None \<Rightarrow> False | Some bs \<Rightarrow> length bs = unat (length_v v))"

text \<open>
  The same for a vector whose \<open>data\<close> may be \<open>NULL\<close>: if there is a block, it has
  \<open>length\<close> bytes.
\<close>

definition block_matches :: "vector \<Rightarrow> bool" where
  "block_matches v =
     (case data v of None \<Rightarrow> True | Some bs \<Rightarrow> length bs = unat (length_v v))"

text \<open>
  Invariants I1 to I3 of the specification: the element size is positive, both byte
  counts are multiples of it, and the live length is within the capacity.
\<close>

definition well_formed :: "vector \<Rightarrow> bool" where
  "well_formed v \<longleftrightarrow>
     0 <s typeSize v \<and> length_v v mod tsz v = 0 \<and> iterator v mod tsz v = 0 \<and>
     iterator v \<le> length_v v"

text \<open>\<open>count() \<le> capacity()\<close>, both counts being defined.\<close>

definition count_le_capacity :: "vector \<Rightarrow> bool" where
  "count_le_capacity v =
     (case (vector_count v, vector_maxsize v) of
        (Some c, Some m) \<Rightarrow> c \<le> m
      | _ \<Rightarrow> False)"

definition grants :: "allocator \<Rightarrow> bool" where
  "grants a = (case a of Refuses \<Rightarrow> False | Grants junk \<Rightarrow> True)"

text \<open>
  The calls for which the capacity invariant is proved below:
  \<^item> no product of an element count and the element size overflows \<open>size_t\<close>
    (in \<open>vector_realloc\<close>, \<open>vector_move\<close> and the growth step of \<open>vector_insert\<close>);
  \<^item> a \<open>vector_realloc\<close> asks for more than zero bytes (what \<open>realloc\<close> does with
    the old block on a request for zero bytes depends on the C library) and, when it
    is granted, for at least the live length;
  \<^item> a \<open>vector_insert\<close> into a full vector finds a capacity above zero and has
    its growth request granted.
\<close>

fun admits :: "vector \<Rightarrow> call \<Rightarrow> bool" where
  "admits v (Realloc a n) =
     (n * tsz v \<noteq> 0 \<and>
      (grants a \<longrightarrow> unat n * unat (tsz v) < 2 ^ 64 \<and> iterator v \<le> n * tsz v))"
| "admits v (Move pos) = (unat pos * unat (tsz v) < 2 ^ 64)"
| "admits v (Insert a d i) =
     (iterator v = length_v v \<longrightarrow>
        grants a \<and> 0 < length_v v \<and> 2 * unat (length_v v) * unat (tsz v) < 2 ^ 64)"
| "admits v c = True"

text \<open>
  An admitted sequence: each call is admitted on the vector it finds and stays inside
  the block, so that no call has undefined behaviour. That the calls return is not
  part of the condition.
\<close>

fun admitted :: "vector \<Rightarrow> call list \<Rightarrow> bool" where
  "admitted v [] = True"
| "admitted v (c # cs) =
     (admits v c \<and>
      (case exec v c of
         Returns ok v' \<Rightarrow> admitted v' cs
       | Undefined \<Rightarrow> False
       | Diverges \<Rightarrow> True))"

text \<open>\<open>count() \<le> capacity()\<close> after a call that returned.\<close>

fun returned_count_le_capacity :: "step \<Rightarrow> bool" where
  "returned_count_le_capacity (Returns ok v) = count_le_capacity v"
| "returned_count_le_capacity Undefined = False"
| "returned_count_le_capacity Diverges = False"

text \<open>
  What a caller can observe of a call that returned: success, \<open>count()\<close>,
  \<open>capacity()\<close> and whether the first is at most the second.
\<close>

fun report :: "step \<Rightarrow> (bool \<times> size_t option \<times> size_t option \<times> bool) option" where
  "report (Returns ok v) = Some (ok, vector_count v, vector_maxsize v, count_le_capacity v)"
| "report Undefined = None"
| "report Diverges = None"

section \<open>Scenarios of the specification\<close>

text \<open>
  The allocator that grants every request, with zero bytes in fresh memory; the
  elements \<open>10, 20, 30, 40, 50\<close> as four little-endian bytes each; the container of
  Scenario A, \<open>vector_calloc2(4, 4, true)\<close>, and the calls of Scenarios A and B.
\<close>

definition zeroing :: allocator where
  "zeroing = Grants (\<lambda>i. 0)"

definition elem :: "byte \<Rightarrow> byte list" where
  "elem x = [x, 0, 0, 0]"

definition fresh4 :: vector where
  "fresh4 = vector_calloc2 zeroing 4 4 True"

definition scenario_A :: "call list" where
  "scenario_A =
     [Insert zeroing (elem 10) 0, Insert zeroing (elem 20) 1,
      Insert zeroing (elem 30) 2, Insert zeroing (elem 40) 3]"

text \<open>The vector after Scenario A: four elements in a block of sixteen bytes.\<close>

definition full4 :: vector where
  "full4 = \<lparr> typeSize = 4, length_v = 16, iterator = 16,
             data = Some (elem 10 @ elem 20 @ elem 30 @ elem 40) \<rparr>"

text \<open>The vector after the first insert of Scenario A.\<close>

definition one4 :: vector where
  "one4 = \<lparr> typeSize = 4, length_v = 16, iterator = 4,
            data = Some (elem 10 @ replicate 12 0) \<rparr>"

definition two4 :: vector where
  "two4 = \<lparr> typeSize = 4, length_v = 16, iterator = 8,
            data = Some (elem 10 @ elem 20 @ replicate 8 0) \<rparr>"

definition three4 :: vector where
  "three4 = \<lparr> typeSize = 4, length_v = 16, iterator = 12,
              data = Some (elem 10 @ elem 20 @ elem 30 @ replicate 4 0) \<rparr>"

text \<open>\<open>vector_calloc(4, false)\<close>: the container of Scenario D.\<close>

definition unreserved4 :: vector where
  "unreserved4 = vector_calloc zeroing 4 False"

text \<open>
  A vector of one-byte elements, and a sequence of calls on the full vector
  \<open>bv 2 2 (Some [7, 8])\<close> that grows it, removes, moves the cursor, shrinks to the
  live length, clears, reads, fails to replace and releases.
\<close>

definition bv :: "size_t \<Rightarrow> size_t \<Rightarrow> block option \<Rightarrow> vector" where
  "bv len it blk = \<lparr> typeSize = 1, length_v = len, iterator = it, data = blk \<rparr>"

definition byte_calls :: "call list" where
  "byte_calls =
     [Insert zeroing [9] 2, Remove 0, Move 1, Realloc zeroing 3, Clear [5], Get 0,
      Replace [1] 0, Free]"

definition byte_trace :: "step list" where
  "byte_trace =
     [Returns True (bv 4 3 (Some [7, 8, 9, 0])), Returns True (bv 4 2 (Some [8, 9, 9, 0])),
      Returns True (bv 4 1 (Some [8, 9, 9, 0])), Returns True (bv 3 1 (Some [8, 9, 9])),
      Returns True (bv 3 0 (Some [5, 5, 5])), Returns True (bv 3 0 (Some [5, 5, 5])),
      Returns False (bv 3 0 (Some [5, 5, 5])), Returns True (bv 3 0 None)]"

section \<open>Arithmetic of the size fields\<close>

text \<open>
  A positive \<open>typeSize\<close> (invariant I1 of the specification) converts to the same
  number as a \<open>size_t\<close>, below \<open>2^31\<close>.
\<close>

lemma tsz_pos_uint:
  assumes "0 <s typeSize v"
  shows "uint (tsz v) = sint (typeSize v)" and "0 < uint (tsz v)"
    and "uint (tsz v) < 2147483648"
proof -
  have p: "0 < sint (typeSize v)"
    using assms by (simp add: word_sless_alt)
  have b: "sint (typeSize v) < 2147483648"
    using sint_lt [of "typeSize v"] by simp
  have "uint (tsz v) = sint (typeSize v) mod 2 ^ 64"
    unfolding tsz_def scast_eq uint_word_of_int by simp
  also have "\<dots> = sint (typeSize v)"
    using p b by simp
  finally show e: "uint (tsz v) = sint (typeSize v)" .
  show "0 < uint (tsz v)" using e p by simp
  show "uint (tsz v) < 2147483648" using e b by simp
qed

lemma tsz_pos_unat:
  assumes "0 <s typeSize v"
  shows "0 < unat (tsz v)" and "unat (tsz v) < 2147483648" and "tsz v \<noteq> 0"
proof -
  have "0 < int (unat (tsz v))" and "int (unat (tsz v)) < 2147483648"
    using tsz_pos_uint(2,3) [OF assms] by simp_all
  then show "0 < unat (tsz v)" and "unat (tsz v) < 2147483648"
    by linarith+
  then show "tsz v \<noteq> 0" by (simp add: unat_gt_0)
qed

lemma count_times_tsz:
  assumes "vector_count v = Some index" and "iterator v mod tsz v = 0"
  shows "index * tsz v = iterator v"
proof -
  have "index = iterator v div tsz v"
    using assms(1) by (simp add: vector_count_def split: if_splits)
  moreover have "iterator v div tsz v * tsz v + iterator v mod tsz v = iterator v"
    by (rule div_mult_mod_eq)
  ultimately show ?thesis using assms(2) by simp
qed

lemma word_less_add_pos:
  assumes "unat (a::64 word) + unat b < 2 ^ 64" and "b \<noteq> 0"
  shows "a < a + b"
proof -
  have "unat (a + b) = unat a + unat b"
    using assms(1) by (simp add: unat_add_lem [THEN iffD1])
  moreover have "0 < unat b" using assms(2) by (simp add: unat_gt_0)
  ultimately show ?thesis by (simp add: word_less_nat_alt)
qed

section \<open>Copies that stay inside the block\<close>

lemma allocatedE:
  assumes "allocated v"
  obtains bs where "data v = Some bs" and "length bs = unat (length_v v)"
  using assms by (auto simp: allocated_def split: option.splits)

lemma memmove_within_True:
  assumes "memmove_within (Some bs) dst src n = (p, True)"
  obtains bs' where "p = Some bs'" and "length bs' = length bs"
  using assms
  by (auto simp: memmove_within_def in_block_def mem_write_def mem_read_def
      split: if_splits)

lemma memmove_within_True_bounds:
  assumes "memmove_within (Some bs) dst src n = (p, True)" and "0 < n"
  shows "0 \<le> dst" and "nat dst + n \<le> length bs"
    and "0 \<le> src" and "nat src + n \<le> length bs"
  using assms
  by (auto simp: memmove_within_def in_block_def split: if_splits)

lemma memcpy_from_True:
  assumes "memcpy_from (Some bs) off d n = (p, True)" and "0 < n"
  shows "0 \<le> off" and "nat off + n \<le> length bs" and "n \<le> length d"
    and "p = Some (take (nat off) bs @ take n d @ drop (nat off + n) bs)"
  using assms
  by (auto simp: memcpy_from_def in_block_def mem_write_def split: if_splits)

text \<open>Writing one element at offset \<open>length\<close> of a block of \<open>length\<close> bytes.\<close>

lemma write_past_end:
  assumes "block_matches v" and "tsz v \<noteq> 0"
  shows "memcpy_from (data v) (uint (length_v v)) d (unat (tsz v)) = (data v, False)"
proof -
  have T: "0 < unat (tsz v)" using assms(2) by (simp add: unat_gt_0)
  have U: "uint (tsz v) \<noteq> 0" using assms(2) by (simp add: uint_0_iff)
  have "\<not> in_block (data v) (uint (length_v v)) (unat (tsz v))"
  proof (cases "data v")
    case None
    then show ?thesis using T by (simp add: in_block_def)
  next
    case (Some bs)
    then have "int (length bs) = uint (length_v v)"
      using assms(1) by (simp add: block_matches_def)
    then show ?thesis using T U Some by (simp add: in_block_def)
  qed
  then show ?thesis using T by (simp add: memcpy_from_def)
qed

text \<open>The definitions that evaluate a call on a concrete vector.\<close>

lemmas model_defs =
  vector_calloc_def vector_calloc2_def vector_realloc_def vector_insert_def vector_remove_def
  vector_get_def vector_move_def vector_replace_def vector_replace_unsafe_def
  vector_count_def vector_maxsize_def vector_free_def deref_def
  calloc_def realloc_def tsz_def memmove_within_def memcpy_from_def in_block_def
  mem_write_def mem_read_def data_field_addr_is_null_def Let_def
  zeroing_def elem_def VECTOR_DEFAULT_LENGTH_def

section \<open>Reallocation\<close>

lemma realloc_Grants:
  "\<exists>blk. realloc (Grants junk) p sz = Some blk \<and> length blk = unat sz"
  by (cases p) (auto simp: realloc_def min_def)

lemma realloc_Refuses: "realloc Refuses p sz = None"
  by (simp add: realloc_def)

lemma vector_realloc_fields:
  "typeSize (vec (vector_realloc a v n)) = typeSize v"
  "iterator (vec (vector_realloc a v n)) = iterator v"
  "tsz (vec (vector_realloc a v n)) = tsz v"
  by (simp_all add: vector_realloc_def tsz_def split: option.split)

lemma vector_realloc_Refuses: "vec (vector_realloc Refuses v n) = v"
  by (simp add: vector_realloc_def realloc_Refuses)

lemma vector_realloc_allocated:
  assumes "allocated v"
  shows "allocated (vec (vector_realloc a v n))"
proof (cases a)
  case Refuses
  then show ?thesis using assms by (simp add: vector_realloc_Refuses)
next
  case (Grants junk)
  obtain blk where "realloc (Grants junk) (data v) (n * tsz v) = Some blk"
    and "length blk = unat (n * tsz v)"
    using realloc_Grants by blast
  then show ?thesis using Grants by (simp add: vector_realloc_def allocated_def)
qed

text \<open>
  Claim C8. \<open>vector_realloc v n\<close>, when the allocator grants the request, returns
  true, sets \<open>length\<close> to \<open>n * typeSize\<close> and \<open>data\<close> to a block of exactly that
  many bytes, and leaves \<open>iterator\<close> and \<open>typeSize\<close> as they were, whatever the
  relation between the new length and the iterator. When the allocator refuses, it
  returns false and the vector is unchanged.
\<close>

theorem vector_realloc_effect:
  "ret (vector_realloc (Grants junk) v n) = True \<and>
   length_v (vec (vector_realloc (Grants junk) v n)) = n * scast (typeSize v) \<and>
   iterator (vec (vector_realloc (Grants junk) v n)) = iterator v \<and>
   typeSize (vec (vector_realloc (Grants junk) v n)) = typeSize v \<and>
   map_option length (data (vec (vector_realloc (Grants junk) v n)))
     = Some (unat (n * scast (typeSize v))) \<and>
   ret (vector_realloc Refuses v n) = False \<and>
   vec (vector_realloc Refuses v n) = v"
proof -
  obtain blk where "realloc (Grants junk) (data v) (n * tsz v) = Some blk"
    and "length blk = unat (n * tsz v)"
    using realloc_Grants by blast
  then show ?thesis
    by (simp add: vector_realloc_def realloc_Refuses tsz_def)
qed

section \<open>Release\<close>

text \<open>
  Claim C10. On a vector whose \<open>data\<close> is not \<open>NULL\<close>, \<open>vector_free\<close> returns
  true and changes the field \<open>data\<close> to \<open>NULL\<close> and nothing else, so
  \<open>vector_bytesize\<close>, \<open>vector_maxsize\<close> and \<open>vector_count\<close> answer as before the
  release. On a vector whose \<open>data\<close> is \<open>NULL\<close> it returns false and the vector is
  unchanged.
\<close>

theorem vector_free_frame:
  "vector_free (Some v) =
     (if data v = None then (False, Some v) else (True, Some (v\<lparr>data := None\<rparr>))) \<and>
   typeSize (v\<lparr>data := None\<rparr>) = typeSize v \<and>
   length_v (v\<lparr>data := None\<rparr>) = length_v v \<and>
   iterator (v\<lparr>data := None\<rparr>) = iterator v \<and>
   vector_bytesize (v\<lparr>data := None\<rparr>) = vector_bytesize v \<and>
   vector_maxsize (v\<lparr>data := None\<rparr>) = vector_maxsize v \<and>
   vector_count (v\<lparr>data := None\<rparr>) = vector_count v"
  by (simp add: vector_free_def vector_bytesize_def vector_maxsize_def vector_count_def
      tsz_def)

section \<open>The allocation test\<close>

text \<open>
  Claim C6. The claim is that \<open>vector_isalloc\<close> is true exactly when \<open>data\<close> is not
  \<open>NULL\<close>. The function compares the address of the field with \<open>NULL\<close>, so on
  the vector that \<open>vector_calloc(4, false)\<close> returns, whose \<open>data\<close> is \<open>NULL\<close>,
  it answers true; it answers true as well after \<open>vector_free\<close> has released the
  container that \<open>vector_calloc2(4, 4, true)\<close> returns.
\<close>

theorem vector_isalloc_on_unallocated:
  "data unreserved4 = None \<and>
   vector_isalloc unreserved4 = True \<and>
   vector_free (Some fresh4) = (True, Some (fresh4\<lparr>data := None\<rparr>)) \<and>
   vector_isalloc (fresh4\<lparr>data := None\<rparr>) = True"
  by (simp add: unreserved4_def fresh4_def zeroing_def vector_calloc_def vector_calloc2_def
      vector_isalloc_def data_field_addr_is_null_def vector_free_def calloc_def)

section \<open>Strings\<close>

lemma VECTOR_MIN_zero: "VECTOR_MIN 0 Y = 0"
  by (simp add: VECTOR_MIN_def word_gt_0)

text \<open>
  Claim C7. The number of bytes that \<open>vector_makestr\<close> copies is
  \<open>min 0 (max (last - first) last)\<close> in \<open>size_t\<close>; that number is stored through
  \<open>outLen\<close> when \<open>outLen\<close> is not \<open>NULL\<close>; the string returned is that many bytes
  from the start of the vector's block followed by a zero byte (or \<open>NULL\<close> when
  \<open>calloc\<close> refuses). In unsigned arithmetic the number is \<open>0\<close>, so nothing is
  read from the block and the call stays in bounds.
\<close>

theorem vector_makestr_length:
  "(let n = min 0 (max (last' - first) last');
        r = vector_makestr a v first last' outLen
    in snd (ret r) = map_option (\<lambda>old. n) outLen \<and>
       fst (ret r) = (case a of Refuses \<Rightarrow> None
                      | Grants junk \<Rightarrow> Some (mem_read (data v) 0 (unat n) @ [0])) \<and>
       vec r = v \<and> inbounds r \<and> n = 0)"
  by (cases a; cases outLen)
     (simp_all add: vector_makestr_def VECTOR_MIN_zero memmove_across_def calloc_def
       mem_read_def Let_def split: option.split)

section \<open>Insert\<close>

lemma vector_insert_unfold:
  assumes "v1 = (if iterator v = length_v v
                 then vec (vector_realloc a v (push_bit 1 (length_v v))) else v)"
    and "B = index * tsz v"
    and "m1 = memmove_within (data v1) (uint (B + tsz v1)) (uint B) (unat (iterator v1 - B))"
    and "m2 = memcpy_from (fst m1) (uint B) d (unat (tsz v1))"
  shows "vector_insert a v d index =
           (if B > iterator v1 then \<lparr> ret = False, vec = v1, inbounds = True \<rparr>
            else \<lparr> ret = True,
                   vec = v1\<lparr>data := fst m2, iterator := iterator v1 + tsz v1\<rparr>,
                   inbounds = (snd m1 \<and> snd m2) \<rparr>)"
  unfolding assms vector_insert_def Let_def data_field_addr_is_null_def
  by simp

text \<open>
  The two copies of \<open>vector_insert\<close> on an allocated vector, when both stay inside
  the block: the iterator does not wrap around, and the element can be read back at
  the offset where it was written.
\<close>

lemma insert_body_roundtrip:
  fixes v1 :: vector and d :: "byte list" and B :: size_t
  assumes al: "allocated v1" and ts: "0 <s typeSize v1"
    and le: "B \<le> iterator v1"
    and m1: "memmove_within (data v1) (uint (B + tsz v1)) (uint B) (unat (iterator v1 - B))
               = (p1, True)"
    and m2: "memcpy_from p1 (uint B) d (unat (tsz v1)) = (p2, True)"
  shows "B \<le> iterator v1 + tsz v1"
    and "in_block p2 (uint B) (unat (tsz v1))"
    and "mem_read p2 (uint B) (unat (tsz v1)) = take (unat (tsz v1)) d"
    and "p2 \<noteq> None"
proof -
  obtain bs where bs: "data v1 = Some bs" and len: "length bs = unat (length_v v1)"
    using al by (rule allocatedE)
  have L: "length bs < 2 ^ 64"
    using len unsigned_less [of "length_v v1", where ?'a = nat] by simp
  have T: "0 < unat (tsz v1)"
    using ts by (rule tsz_pos_unat)
  obtain b1 where p1: "p1 = Some b1" and len1: "length b1 = length bs"
    using m1 unfolding bs by (rule memmove_within_True)
  have c: "nat (uint B) + unat (tsz v1) \<le> length b1"
    and src: "unat (tsz v1) \<le> length d"
    and p2: "p2 = Some (take (nat (uint B)) b1 @ take (unat (tsz v1)) d
                        @ drop (nat (uint B) + unat (tsz v1)) b1)"
    using memcpy_from_True [OF m2 [unfolded p1] T] by simp_all
  have uB: "nat (uint B) = unat B" by simp
  have BT: "unat B + unat (tsz v1) < 2 ^ 64"
    using c L len1 uB by simp
  have sub: "unat (iterator v1 - B) = unat (iterator v1) - unat B"
    using le by (simp add: unat_sub)
  have leN: "unat B \<le> unat (iterator v1)"
    using le by (simp add: word_le_nat_alt)
  have IT: "unat (iterator v1) + unat (tsz v1) < 2 ^ 64"
  proof (cases "unat (iterator v1 - B) = 0")
    case True
    then have "unat (iterator v1) = unat B" using sub leN by simp
    then show ?thesis using BT by simp
  next
    case False
    then have pos: "0 < unat (iterator v1 - B)" by simp
    have "nat (uint (B + tsz v1)) + unat (iterator v1 - B) \<le> length bs"
      using memmove_within_True_bounds(2) [OF m1 [unfolded bs] pos] .
    moreover have "unat (B + tsz v1) = unat B + unat (tsz v1)"
      using BT by (simp add: unat_add_lem [THEN iffD1])
    ultimately have "unat B + unat (tsz v1) + (unat (iterator v1) - unat B) \<le> length bs"
      using sub by simp
    then show ?thesis using L leN by simp
  qed
  have "unat (iterator v1 + tsz v1) = unat (iterator v1) + unat (tsz v1)"
    using IT by (simp add: unat_add_lem [THEN iffD1])
  then show "B \<le> iterator v1 + tsz v1"
    using leN by (simp add: word_le_nat_alt)
  show "p2 \<noteq> None" using p2 by simp
  have c': "unat B + unat (tsz v1) \<le> length b1"
    using c uB by simp
  have len2: "length (take (unat B) b1 @ take (unat (tsz v1)) d
                      @ drop (unat B + unat (tsz v1)) b1) = length b1"
    using c' src by (simp add: min_absorb2)
  have "int (unat B) + int (unat (tsz v1)) \<le> int (length b1)"
    using c' by linarith
  then have "uint B + int (unat (tsz v1)) \<le> int (length b1)"
    by (simp only: uint_nat)
  then show "in_block p2 (uint B) (unat (tsz v1))"
    unfolding in_block_def p2 uB option.case len2 by simp
  have "take (unat (tsz v1)) (drop (unat B) (take (unat B) b1 @ take (unat (tsz v1)) d
          @ drop (unat B + unat (tsz v1)) b1)) = take (unat (tsz v1)) d"
    using c' src by (simp add: min_absorb2)
  then show "mem_read p2 (uint B) (unat (tsz v1)) = take (unat (tsz v1)) d"
    unfolding mem_read_def p2 uB option.case .
qed

text \<open>
  Claim C1. On an allocated container with a positive element size, whenever
  \<open>vector_insert(data, index)\<close> returns true and its two copies stayed inside the
  block (the index was valid and there was room for the element),
  \<open>vector_get(index)\<close> on the resulting vector returns the pointer
  \<open>data + index * typeSize\<close>, and the \<open>typeSize\<close> bytes read there are the first
  \<open>typeSize\<close> bytes of the inserted data.
\<close>

theorem vector_insert_get_roundtrip:
  assumes al: "allocated v" and ts: "0 <s typeSize v"
    and r: "ret (vector_insert a v d index) = True"
    and ib: "inbounds (vector_insert a v d index)"
  shows "vector_get (vec (vector_insert a v d index)) index
           = Into_data (uint (index * tsz v)) \<and>
         deref (vec (vector_insert a v d index))
               (vector_get (vec (vector_insert a v d index)) index) (unat (tsz v))
           = Some (take (unat (tsz v)) d)"
proof -
  define v1 where "v1 = (if iterator v = length_v v
                 then vec (vector_realloc a v (push_bit 1 (length_v v))) else v)"
  define B where "B = index * tsz v"
  define m1 where
    "m1 = memmove_within (data v1) (uint (B + tsz v1)) (uint B) (unat (iterator v1 - B))"
  define m2 where "m2 = memcpy_from (fst m1) (uint B) d (unat (tsz v1))"
  note u = vector_insert_unfold [OF v1_def B_def m1_def m2_def]
  have al1: "allocated v1"
    using al by (simp add: v1_def vector_realloc_allocated)
  have t1: "typeSize v1 = typeSize v" and z1: "tsz v1 = tsz v"
    by (simp_all add: v1_def vector_realloc_fields)
  have ts1: "0 <s typeSize v1" using ts t1 by simp
  have le: "B \<le> iterator v1"
    using r unfolding u by (simp split: if_splits)
  have s1: "snd m1" and s2: "snd m2"
    using ib le unfolding u by (simp_all split: if_splits)
  have e1: "memmove_within (data v1) (uint (B + tsz v1)) (uint B) (unat (iterator v1 - B))
              = (fst m1, True)"
    using s1 unfolding m1_def [symmetric] by (simp add: prod_eq_iff)
  have e2: "memcpy_from (fst m1) (uint B) d (unat (tsz v1)) = (fst m2, True)"
    using s2 unfolding m2_def [symmetric] by (simp add: prod_eq_iff)
  note body = insert_body_roundtrip [OF al1 ts1 le e1 e2]
  define v' where "v' = v1\<lparr>data := fst m2, iterator := iterator v1 + tsz v1\<rparr>"
  have res: "vec (vector_insert a v d index) = v'"
    using le unfolding u v'_def by simp
  have z': "tsz v' = tsz v"
    using z1 by (simp add: v'_def tsz_def)
  obtain b2 where b2: "fst m2 = Some b2"
    using body(4) by auto
  have bi': "index * tsz v' = B"
    by (simp add: z' B_def)
  have it': "iterator v' = iterator v1 + tsz v1" and d': "data v' = Some b2"
    using b2 by (simp_all add: v'_def)
  have ng: "\<not> iterator v' < B"
    using body(1) it' by (simp add: not_less)
  have g: "vector_get v' index = Into_data (uint B)"
    unfolding vector_get_def Let_def bi' data_field_addr_is_null_def
    using ng d' by simp
  have "deref v' (Into_data (uint B)) (unat (tsz v)) = Some (take (unat (tsz v)) d)"
    using body(2,3) z1 d' b2 by (simp add: deref_def)
  then show ?thesis
    unfolding res g B_def [symmetric] by simp
qed

theorem vector_insert_get_roundtrip_witness:
  "allocated one4 \<and> 0 <s typeSize one4 \<and>
   ret (vector_insert zeroing one4 (elem 20) 1) = True \<and>
   inbounds (vector_insert zeroing one4 (elem 20) 1) \<and>
   vector_get (vec (vector_insert zeroing one4 (elem 20) 1)) 1 = Into_data 4 \<and>
   deref (vec (vector_insert zeroing one4 (elem 20) 1))
         (vector_get (vec (vector_insert zeroing one4 (elem 20) 1)) 1) 4
     = Some [20, 0, 0, 0]"
proof -
  have h1: "allocated one4" and h2: "0 <s typeSize one4"
    by (simp_all add: one4_def allocated_def elem_def word_sless_alt)
  have h3: "ret (vector_insert zeroing one4 (elem 20) 1) = True"
    and h4: "inbounds (vector_insert zeroing one4 (elem 20) 1)"
    by (simp_all add: one4_def model_defs)
  have n: "uint (1 * tsz one4) = 4" "unat (tsz one4) = 4"
    "take 4 (elem 20) = [20, 0, 0, 0]"
    by (simp_all add: one4_def tsz_def elem_def)
  show ?thesis
    using vector_insert_get_roundtrip [OF h1 h2 h3 h4, unfolded n] h1 h2 h3 h4
    by blast
qed

text \<open>
  Claim C9. On a full vector (\<open>iterator = length > 0\<close>, both multiples of the
  element size) whose growth request the allocator refuses, an append
  (\<open>index = count()\<close>) returns true, adds \<open>typeSize\<close> to \<open>iterator\<close> and leaves
  \<open>length\<close> and \<open>typeSize\<close> as they were: the refusal is not reported. Unless the
  sum wraps around \<open>size_t\<close>, the iterator is then above \<open>length\<close>; and when the
  block has \<open>length\<close> bytes, the element was written outside it.
\<close>

theorem vector_insert_growth_failure_unreported:
  assumes full: "iterator v = length_v v" "0 < length_v v"
    and mult: "iterator v mod tsz v = 0"
    and append: "vector_count v = Some index"
  shows "ret (vector_insert Refuses v d index) = True \<and>
         iterator (vec (vector_insert Refuses v d index)) = length_v v + tsz v \<and>
         length_v (vec (vector_insert Refuses v d index)) = length_v v \<and>
         typeSize (vec (vector_insert Refuses v d index)) = typeSize v \<and>
         (unat (length_v v) + unat (tsz v) < 2 ^ 64 \<longrightarrow>
            length_v (vec (vector_insert Refuses v d index))
              < iterator (vec (vector_insert Refuses v d index))) \<and>
         (block_matches v \<longrightarrow> \<not> inbounds (vector_insert Refuses v d index))"
proof -
  have bi: "index * tsz v = iterator v"
    using append mult by (rule count_times_tsz)
  have nz: "tsz v \<noteq> 0"
    using append by (simp add: vector_count_def split: if_splits)
  have r: "ret (vector_insert Refuses v d index) = True"
    and i: "iterator (vec (vector_insert Refuses v d index)) = length_v v + tsz v"
    and l: "length_v (vec (vector_insert Refuses v d index)) = length_v v"
    and t: "typeSize (vec (vector_insert Refuses v d index)) = typeSize v"
    using full(1)
    by (simp_all add: vector_insert_def Let_def vector_realloc_Refuses bi
        data_field_addr_is_null_def)
  have o: "\<not> inbounds (vector_insert Refuses v d index)" if "block_matches v"
    using full(1) write_past_end [OF that nz, of d]
    by (simp add: vector_insert_def Let_def vector_realloc_Refuses bi
        data_field_addr_is_null_def memmove_within_def)
  show ?thesis
    using r i l t o word_less_add_pos [of "length_v v" "tsz v"] nz by simp
qed

theorem vector_insert_growth_failure_unreported_witness:
  "iterator full4 = length_v full4 \<and> 0 < length_v full4 \<and>
   iterator full4 mod tsz full4 = 0 \<and> vector_count full4 = Some 4 \<and>
   unat (length_v full4) + unat (tsz full4) < 2 ^ 64 \<and> block_matches full4 \<and>
   ret (vector_insert Refuses full4 (elem 50) 4) = True \<and>
   iterator (vec (vector_insert Refuses full4 (elem 50) 4)) = 20 \<and>
   length_v (vec (vector_insert Refuses full4 (elem 50) 4)) = 16 \<and>
   length_v (vec (vector_insert Refuses full4 (elem 50) 4))
     < iterator (vec (vector_insert Refuses full4 (elem 50) 4)) \<and>
   \<not> inbounds (vector_insert Refuses full4 (elem 50) 4)"
proof -
  have h1: "iterator full4 = length_v full4" and h2: "0 < length_v full4"
    and h3: "iterator full4 mod tsz full4 = 0" and h4: "vector_count full4 = Some 4"
    and h5: "unat (length_v full4) + unat (tsz full4) < 2 ^ 64"
    and h6: "block_matches full4"
    and e: "length_v full4 + tsz full4 = 20" "length_v full4 = 16"
    by (simp_all add: full4_def tsz_def vector_count_def block_matches_def elem_def)
  show ?thesis
    using vector_insert_growth_failure_unreported [OF h1 h2 h3 h4, of "elem 50"]
      h1 h2 h3 h4 h5 h6 e
    by simp
qed

section \<open>The scenarios, evaluated\<close>

lemma fresh4_eq:
  "fresh4 = \<lparr> typeSize = 4, length_v = 16, iterator = 0, data = Some (replicate 16 0) \<rparr>"
  by (simp add: fresh4_def model_defs)

lemma insert_fresh4:
  "vector_insert zeroing fresh4 (elem 10) 0 = \<lparr> ret = True, vec = one4, inbounds = True \<rparr>"
  by (simp add: fresh4_eq one4_def model_defs)

lemma insert_one4:
  "vector_insert zeroing one4 (elem 20) 1 = \<lparr> ret = True, vec = two4, inbounds = True \<rparr>"
  by (simp add: one4_def two4_def model_defs)

lemma insert_two4:
  "vector_insert zeroing two4 (elem 30) 2 = \<lparr> ret = True, vec = three4, inbounds = True \<rparr>"
  by (simp add: two4_def three4_def model_defs)

lemma insert_three4:
  "vector_insert zeroing three4 (elem 40) 3 = \<lparr> ret = True, vec = full4, inbounds = True \<rparr>"
  by (simp add: three4_def full4_def model_defs)

text \<open>Scenario A leads from the fresh container to \<open>full4\<close>, every insert succeeding.\<close>

lemma scenario_A_run:
  "run fresh4 scenario_A
     = [Returns True one4, Returns True two4, Returns True three4, Returns True full4]"
  by (simp add: scenario_A_def step_of_def insert_fresh4 insert_one4 insert_two4
      insert_three4)

text \<open>
  In the growth step \<open>vector_insert\<close> passes \<open>length << 1\<close>, a number of bytes, to
  \<open>vector_realloc\<close>, which takes a number of elements and multiplies it by
  \<open>typeSize\<close>.
\<close>

lemma vector_insert_grown_length:
  assumes "iterator v = length_v v"
  shows "length_v (vec (vector_insert (Grants junk) v d index))
           = push_bit 1 (length_v v) * tsz v"
proof -
  obtain blk where "realloc (Grants junk) (data v) (push_bit 1 (length_v v) * tsz v) = Some blk"
    using realloc_Grants by blast
  then show ?thesis
    using assms by (simp add: vector_insert_def vector_realloc_def Let_def)
qed

text \<open>
  Claim C2. The claim is that an insert into a full container doubles \<open>capacity()\<close>.
  Scenario B, the append of a fifth element to the full container of four 4-byte
  elements: the insert succeeds in bounds and the element is stored at index 4, but
  \<open>capacity()\<close> goes from 4 to 32, not to 8; the new \<open>length\<close> is
  \<open>(16 << 1) * 4 = 128\<close> bytes.
\<close>

theorem vector_insert_full_capacity:
  "ret (vector_insert zeroing full4 (elem 50) 4) = True \<and>
   inbounds (vector_insert zeroing full4 (elem 50) 4) = True \<and>
   vector_maxsize full4 = Some 4 \<and>
   vector_maxsize (vec (vector_insert zeroing full4 (elem 50) 4)) = Some 32 \<and>
   length_v (vec (vector_insert zeroing full4 (elem 50) 4)) = 128 \<and>
   vector_count (vec (vector_insert zeroing full4 (elem 50) 4)) = Some 5 \<and>
   deref (vec (vector_insert zeroing full4 (elem 50) 4))
         (vector_get (vec (vector_insert zeroing full4 (elem 50) 4)) 4) 4
     = Some [50, 0, 0, 0]"
  by (simp add: full4_def model_defs)

text \<open>
  Claim C3. The claim is that every insert on a container built with
  \<open>reserve = false\<close> reports failure and leaves \<open>count()\<close> and \<open>capacity()\<close> at 0.
  On \<open>vector_calloc(4, false)\<close> the insert at index 0 returns true and leaves
  \<open>count() = 1\<close> with \<open>capacity() = 0\<close>, whether \<open>realloc(NULL, 0)\<close> returns
  \<open>NULL\<close> or a block of no bytes; the four bytes are written outside any block.
\<close>

theorem vector_insert_unreserved:
  "data unreserved4 = None \<and> vector_count unreserved4 = Some 0 \<and>
   vector_maxsize unreserved4 = Some 0 \<and>
   ret (vector_insert Refuses unreserved4 (elem 50) 0) = True \<and>
   inbounds (vector_insert Refuses unreserved4 (elem 50) 0) = False \<and>
   vector_count (vec (vector_insert Refuses unreserved4 (elem 50) 0)) = Some 1 \<and>
   vector_maxsize (vec (vector_insert Refuses unreserved4 (elem 50) 0)) = Some 0 \<and>
   ret (vector_insert zeroing unreserved4 (elem 50) 0) = True \<and>
   inbounds (vector_insert zeroing unreserved4 (elem 50) 0) = False \<and>
   vector_count (vec (vector_insert zeroing unreserved4 (elem 50) 0)) = Some 1 \<and>
   vector_maxsize (vec (vector_insert zeroing unreserved4 (elem 50) 0)) = Some 0"
  by (simp add: unreserved4_def model_defs)

section \<open>Remove\<close>

text \<open>
  Claim C5. The claim is that \<open>vector_remove(index)\<close> succeeds for every index up to
  and including \<open>count()\<close>. On the container holding one 4-byte element,
  \<open>vector_remove(1)\<close> passes the guard, sets the iterator to 0 and returns true, but
  the number of bytes it asks \<open>memmove\<close> to move is \<open>0 - 4\<close> in \<open>size_t\<close>, that
  is \<open>2^64 - 4\<close>, in a block of 16 bytes: the copy is out of bounds.
\<close>

theorem vector_remove_at_count:
  "vector_count one4 = Some 1 \<and>
   ret (vector_remove one4 1) = True \<and>
   iterator (vec (vector_remove one4 1)) = 0 \<and>
   unat ((iterator one4 - tsz one4) - 1 * tsz one4) = 18446744073709551612 \<and>
   inbounds (vector_remove one4 1) = False"
  by (simp add: one4_def model_defs)

section \<open>The capacity invariant over sequences of calls\<close>

text \<open>
  Divisibility of the two byte counts by the element size, read on natural numbers.
\<close>

lemma word_mod_0_iff_dvd: "(a::64 word) mod b = 0 \<longleftrightarrow> unat b dvd unat a"
proof -
  have "a mod b = 0 \<longleftrightarrow> unat (a mod b) = 0"
    by (simp add: unat_eq_0)
  also have "\<dots> \<longleftrightarrow> unat a mod unat b = 0"
    by (simp add: unat_mod)
  also have "\<dots> \<longleftrightarrow> unat b dvd unat a"
    by (simp add: dvd_eq_mod_eq_0)
  finally show ?thesis .
qed

lemma wf_nat:
  assumes "well_formed v"
  shows "0 <s typeSize v" and "0 < unat (tsz v)" and "unat (tsz v) dvd unat (length_v v)"
    and "unat (tsz v) dvd unat (iterator v)" and "unat (iterator v) \<le> unat (length_v v)"
  using assms tsz_pos_unat(1) [of v]
  by (simp_all add: well_formed_def word_mod_0_iff_dvd word_le_nat_alt)

lemma wfI:
  assumes "0 <s typeSize v" and "unat (tsz v) dvd unat (length_v v)"
    and "unat (tsz v) dvd unat (iterator v)" and "unat (iterator v) \<le> unat (length_v v)"
  shows "well_formed v"
  using assms by (simp add: well_formed_def word_mod_0_iff_dvd word_le_nat_alt)

lemma wf_fields:
  assumes "well_formed v" and "typeSize v' = typeSize v" and "length_v v' = length_v v"
    and "iterator v' = iterator v"
  shows "well_formed v'"
  using assms by (simp add: well_formed_def tsz_def)

lemma dvd_step:
  assumes "(t::nat) dvd i" and "t dvd l" and "i < l"
  shows "i + t \<le> l"
proof -
  obtain a where a: "i = t * a" using assms(1) by (auto elim: dvdE)
  obtain b where b: "l = t * b" using assms(2) by (auto elim: dvdE)
  have "a < b" using assms(3) a b by (metis mult_less_cancel1)
  then have "Suc a \<le> b" by simp
  then have "t * Suc a \<le> t * b" by (rule mult_le_mono2)
  then show ?thesis using a b by simp
qed


text \<open>Each call keeps a well-formed vector well-formed, under the conditions of \<open>admits\<close>.\<close>

lemma wf_realloc:
  assumes w: "well_formed v" and ad: "admits v (Realloc a n)"
  shows "well_formed (vec (vector_realloc a v n))"
proof (cases a)
  case Refuses
  then show ?thesis using w by (simp add: vector_realloc_Refuses)
next
  case (Grants junk)
  obtain blk where blk: "realloc (Grants junk) (data v) (n * tsz v) = Some blk"
    using realloc_Grants by blast
  define v' where "v' = vec (vector_realloc a v n)"
  have f: "typeSize v' = typeSize v" "length_v v' = n * tsz v" "iterator v' = iterator v"
    "tsz v' = tsz v"
    using Grants blk by (simp_all add: v'_def vector_realloc_def tsz_def)
  have nb: "unat n * unat (tsz v) < 2 ^ 64" and le: "iterator v \<le> n * tsz v"
    using ad Grants by (simp_all add: grants_def)
  have m: "unat (n * tsz v) = unat n * unat (tsz v)"
    using nb by (simp add: unat_mult_lem [THEN iffD1])
  have "well_formed v'"
  proof (rule wfI)
    show "0 <s typeSize v'" using wf_nat(1) [OF w] f by simp
    show "unat (tsz v') dvd unat (length_v v')" using f m by simp
    show "unat (tsz v') dvd unat (iterator v')" using wf_nat(4) [OF w] f by simp
    show "unat (iterator v') \<le> unat (length_v v')"
      using le f by (simp add: word_le_nat_alt)
  qed
  then show ?thesis by (simp add: v'_def)
qed

lemma wf_move:
  assumes w: "well_formed v" and ad: "admits v (Move pos)"
  shows "well_formed (vec (vector_move v pos))"
proof (cases "pos * tsz v > length_v v")
  case True
  then show ?thesis using w by (simp add: vector_move_def)
next
  case False
  define v' where "v' = vec (vector_move v pos)"
  have f: "typeSize v' = typeSize v" "length_v v' = length_v v" "iterator v' = pos * tsz v"
    "tsz v' = tsz v"
    using False by (simp_all add: v'_def vector_move_def data_field_addr_is_null_def tsz_def)
  have nb: "unat pos * unat (tsz v) < 2 ^ 64"
    using ad by simp
  have m: "unat (pos * tsz v) = unat pos * unat (tsz v)"
    using nb by (simp add: unat_mult_lem [THEN iffD1])
  have "well_formed v'"
  proof (rule wfI)
    show "0 <s typeSize v'" using wf_nat(1) [OF w] f by simp
    show "unat (tsz v') dvd unat (length_v v')" using wf_nat(3) [OF w] f by simp
    show "unat (tsz v') dvd unat (iterator v')" using f m by simp
    show "unat (iterator v') \<le> unat (length_v v')"
      using False f by (simp add: word_le_nat_alt not_less)
  qed
  then show ?thesis by (simp add: v'_def)
qed

lemma wf_clear:
  assumes w: "well_formed v" and r: "vector_clear v d = Some r"
  shows "well_formed (vec r)"
proof (cases "length_v v \<le> 0")
  case True
  then show ?thesis using w r by (auto simp: vector_clear_def)
next
  case False
  then obtain p ok where "r = \<lparr> ret = True, vec = v\<lparr>data := p, iterator := 0\<rparr>, inbounds = ok \<rparr>"
    using r by (auto simp: vector_clear_def data_field_addr_is_null_def split: option.splits)
  then have f: "typeSize (vec r) = typeSize v" "length_v (vec r) = length_v v"
    "iterator (vec r) = 0" "tsz (vec r) = tsz v"
    by (simp_all add: tsz_def)
  show ?thesis
  proof (rule wfI)
    show "0 <s typeSize (vec r)" using wf_nat(1) [OF w] f by simp
    show "unat (tsz (vec r)) dvd unat (length_v (vec r))" using wf_nat(3) [OF w] f by simp
    show "unat (tsz (vec r)) dvd unat (iterator (vec r))" using f by simp
    show "unat (iterator (vec r)) \<le> unat (length_v (vec r))" using f by simp
  qed
qed

lemma wf_replace:
  assumes "well_formed v"
  shows "well_formed (vec (vector_replace v d i))"
proof -
  have "typeSize (vec (vector_replace v d i)) = typeSize v"
    "length_v (vec (vector_replace v d i)) = length_v v"
    "iterator (vec (vector_replace v d i)) = iterator v"
    by (simp_all add: vector_replace_def Let_def)
  with assms show ?thesis by (rule wf_fields)
qed

lemma wf_replace_unsafe:
  assumes "well_formed v"
  shows "well_formed (vec (vector_replace_unsafe v d i n))"
proof -
  have "typeSize (vec (vector_replace_unsafe v d i n)) = typeSize v"
    "length_v (vec (vector_replace_unsafe v d i n)) = length_v v"
    "iterator (vec (vector_replace_unsafe v d i n)) = iterator v"
    by (simp_all add: vector_replace_unsafe_def Let_def)
  with assms show ?thesis by (rule wf_fields)
qed

lemma wf_free:
  assumes "well_formed v" and "vector_free (Some v) = (b, Some v')"
  shows "well_formed v'"
proof -
  have "typeSize v' = typeSize v" "length_v v' = length_v v" "iterator v' = iterator v"
    using assms(2) by (auto simp: vector_free_def split: if_splits)
  with assms(1) show ?thesis by (rule wf_fields)
qed

lemma wf_remove:
  assumes w: "well_formed v"
  shows "well_formed (vec (vector_remove v i))"
proof (cases "ret (vector_remove v i)")
  case False
  then have "vec (vector_remove v i) = v"
    by (auto simp: vector_remove_def Let_def split: if_splits)
  then show ?thesis using w by simp
next
  case True
  define v' where "v' = vec (vector_remove v i)"
  have f: "typeSize v' = typeSize v" "length_v v' = length_v v" "tsz v' = tsz v"
    "iterator v' = iterator v - (if iterator v > 0 then tsz v else 0)"
    using True by (auto simp: v'_def vector_remove_def Let_def tsz_def split: if_splits)
  note n = wf_nat [OF w]
  have "well_formed v'"
  proof (cases "iterator v > 0")
    case False
    then have "iterator v' = iterator v" using f by simp
    then show ?thesis using w f by (intro wf_fields [OF w]) simp_all
  next
    case True
    then have pos: "0 < unat (iterator v)" by (simp add: word_less_nat_alt)
    have ge: "unat (tsz v) \<le> unat (iterator v)"
      using n(4) pos by (rule dvd_imp_le)
    then have "tsz v \<le> iterator v" by (simp add: word_le_nat_alt)
    then have s: "unat (iterator v - tsz v) = unat (iterator v) - unat (tsz v)"
      by (simp add: unat_sub)
    have i': "iterator v' = iterator v - tsz v" using True f by simp
    show ?thesis
    proof (rule wfI)
      show "0 <s typeSize v'" using n(1) f by simp
      show "unat (tsz v') dvd unat (length_v v')" using n(3) f by simp
      show "unat (tsz v') dvd unat (iterator v')"
        using n(4) ge f(3) i' s by (simp add: dvd_diff_nat)
      show "unat (iterator v') \<le> unat (length_v v')"
        using n(5) i' s f(2) by simp
    qed
  qed
  then show ?thesis by (simp add: v'_def)
qed

lemma wf_advance:
  assumes w: "well_formed v1"
    and room: "unat (iterator v1) + unat (tsz v1) \<le> unat (length_v v1)"
    and f: "typeSize v' = typeSize v1" "length_v v' = length_v v1"
      "iterator v' = iterator v1 + tsz v1"
  shows "well_formed v'"
proof -
  note n = wf_nat [OF w]
  have z: "tsz v' = tsz v1" using f(1) by (simp add: tsz_def)
  have "unat (length_v v1) < 2 ^ 64"
    using unsigned_less [of "length_v v1", where ?'a = nat] by simp
  then have "unat (iterator v1) + unat (tsz v1) < 2 ^ 64"
    using room by simp
  then have s: "unat (iterator v1 + tsz v1) = unat (iterator v1) + unat (tsz v1)"
    by (simp add: unat_add_lem [THEN iffD1])
  show ?thesis
  proof (rule wfI)
    show "0 <s typeSize v'" using n(1) f by simp
    show "unat (tsz v') dvd unat (length_v v')" using n(3) f(2) z by simp
    show "unat (tsz v') dvd unat (iterator v')" using n(4) f(3) z s by simp
    show "unat (iterator v') \<le> unat (length_v v')" using room f(2,3) s by simp
  qed
qed

lemma wf_grown:
  assumes w: "well_formed v" and full: "iterator v = length_v v" and pos: "0 < length_v v"
    and nb: "2 * unat (length_v v) * unat (tsz v) < 2 ^ 64"
  shows "well_formed (vec (vector_realloc (Grants junk) v (push_bit 1 (length_v v))))"
    and "unat (iterator (vec (vector_realloc (Grants junk) v (push_bit 1 (length_v v)))))
           + unat (tsz (vec (vector_realloc (Grants junk) v (push_bit 1 (length_v v)))))
         \<le> unat (length_v (vec (vector_realloc (Grants junk) v (push_bit 1 (length_v v)))))"
proof -
  define v1 where "v1 = vec (vector_realloc (Grants junk) v (push_bit 1 (length_v v)))"
  note n = wf_nat [OF w]
  obtain blk where
    "realloc (Grants junk) (data v) (push_bit 1 (length_v v) * tsz v) = Some blk"
    using realloc_Grants by blast
  then have f: "typeSize v1 = typeSize v" "iterator v1 = iterator v" "tsz v1 = tsz v"
    "length_v v1 = push_bit 1 (length_v v) * tsz v"
    by (simp_all add: v1_def vector_realloc_def tsz_def)
  have T1: "1 \<le> unat (tsz v)" using n(2) by simp
  have "2 * unat (length_v v) * 1 \<le> 2 * unat (length_v v) * unat (tsz v)"
    using T1 by (rule mult_le_mono2)
  then have d: "2 * unat (length_v v) \<le> 2 * unat (length_v v) * unat (tsz v)"
    by simp
  have "2 * unat (length_v v) < 2 ^ 64"
    using order_le_less_trans [OF d nb] .
  then have p: "unat (push_bit 1 (length_v v)) = 2 * unat (length_v v)"
    using unat_mult_lem [of 2 "length_v v"] by (simp add: push_bit_eq_mult mult.commute)
  have "unat (push_bit 1 (length_v v)) * unat (tsz v) < 2 ^ 64"
    using nb p by simp
  then have "unat (push_bit 1 (length_v v) * tsz v) = unat (push_bit 1 (length_v v)) * unat (tsz v)"
    by (simp add: unat_mult_lem [THEN iffD1])
  then have m: "unat (length_v v1) = 2 * unat (length_v v) * unat (tsz v)"
    using f(4) p by simp
  have Lpos: "0 < unat (length_v v)"
    using pos by (simp add: word_less_nat_alt)
  have TL: "unat (tsz v) \<le> unat (length_v v)"
    using n(3) Lpos by (rule dvd_imp_le)
  have "unat (length_v v) + unat (tsz v) \<le> 2 * unat (length_v v) * unat (tsz v)"
    using TL d by linarith
  then have room: "unat (iterator v1) + unat (tsz v1) \<le> unat (length_v v1)"
    unfolding f(2,3) full m .
  have "well_formed v1"
  proof (rule wfI)
    show "0 <s typeSize v1" using n(1) f by simp
    show "unat (tsz v1) dvd unat (length_v v1)" using f(3) m by simp
    show "unat (tsz v1) dvd unat (iterator v1)" using n(4) f(2,3) by simp
    show "unat (iterator v1) \<le> unat (length_v v1)" using room by simp
  qed
  then show "well_formed (vec (vector_realloc (Grants junk) v (push_bit 1 (length_v v))))"
    by (simp add: v1_def)
  show "unat (iterator (vec (vector_realloc (Grants junk) v (push_bit 1 (length_v v)))))
           + unat (tsz (vec (vector_realloc (Grants junk) v (push_bit 1 (length_v v)))))
         \<le> unat (length_v (vec (vector_realloc (Grants junk) v (push_bit 1 (length_v v)))))"
    using room by (simp add: v1_def)
qed

text \<open>
  After the growth step of an admitted insert the vector is well-formed and has room
  for one more element.
\<close>

lemma insert_grown_room:
  assumes w: "well_formed v" and ad: "admits v (Insert a d i)"
    and v1: "v1 = (if iterator v = length_v v
                   then vec (vector_realloc a v (push_bit 1 (length_v v))) else v)"
  shows "well_formed v1 \<and> unat (iterator v1) + unat (tsz v1) \<le> unat (length_v v1)"
proof (cases "iterator v = length_v v")
  case True
  then have gr: "grants a" and pos: "0 < length_v v"
    and nb: "2 * unat (length_v v) * unat (tsz v) < 2 ^ 64"
    using ad by simp_all
  obtain junk where a: "a = Grants junk"
    using gr by (cases a) (simp_all add: grants_def)
  have v1e: "v1 = vec (vector_realloc (Grants junk) v (push_bit 1 (length_v v)))"
    unfolding v1 a using True by (rule if_P)
  show ?thesis
    unfolding v1e using wf_grown [OF w True pos nb, of junk] by (rule conjI)
next
  case False
  note n = wf_nat [OF w]
  have "unat (iterator v) \<noteq> unat (length_v v)"
    using False by (simp add: word_unat_eq_iff)
  then have "unat (iterator v) < unat (length_v v)" using n(5) by simp
  then have "unat (iterator v) + unat (tsz v) \<le> unat (length_v v)"
    using n(3,4) by (intro dvd_step) simp_all
  moreover have "v1 = v"
    unfolding v1 using False by (rule if_not_P)
  ultimately show ?thesis using w by simp
qed

lemma wf_insert:
  assumes w: "well_formed v" and ad: "admits v (Insert a d i)"
  shows "well_formed (vec (vector_insert a v d i))"
proof -
  define v1 where "v1 = (if iterator v = length_v v
                 then vec (vector_realloc a v (push_bit 1 (length_v v))) else v)"
  define B where "B = i * tsz v"
  define m1 where
    "m1 = memmove_within (data v1) (uint (B + tsz v1)) (uint B) (unat (iterator v1 - B))"
  define m2 where "m2 = memcpy_from (fst m1) (uint B) d (unat (tsz v1))"
  note u = vector_insert_unfold [OF v1_def B_def m1_def m2_def]
  note g = insert_grown_room [OF w ad v1_def]
  show ?thesis
  proof (cases "B > iterator v1")
    case True
    then show ?thesis using g unfolding u by simp
  next
    case False
    then have "vec (vector_insert a v d i)
                 = v1\<lparr>data := fst m2, iterator := iterator v1 + tsz v1\<rparr>"
      unfolding u by simp
    moreover have "well_formed (v1\<lparr>data := fst m2, iterator := iterator v1 + tsz v1\<rparr>)"
      by (rule wf_advance [OF conjunct1 [OF g] conjunct2 [OF g]]) simp_all
    ultimately show ?thesis by simp
  qed
qed

lemma exec_well_formed:
  assumes w: "well_formed v" and ad: "admits v c" and e: "exec v c = Returns ok v'"
  shows "well_formed v'"
proof (cases c)
  case (Realloc a n)
  then show ?thesis
    using wf_realloc [OF w, of a n] ad e by (auto simp: step_of_def split: if_splits)
next
  case (Move pos)
  then show ?thesis
    using wf_move [OF w, of pos] ad e by (auto simp: step_of_def split: if_splits)
next
  case (Clear d)
  then show ?thesis
    using wf_clear [OF w, of d] e
    by (auto simp: step_of_def split: option.splits if_splits)
next
  case (Insert a d i)
  then show ?thesis
    using wf_insert [OF w, of a d i] ad e by (auto simp: step_of_def split: if_splits)
next
  case (Replace d i)
  then show ?thesis
    using wf_replace [OF w, of d i] e by (auto simp: step_of_def split: if_splits)
next
  case (Replace_unsafe d i n)
  then show ?thesis
    using wf_replace_unsafe [OF w, of d i n] e
    by (auto simp: step_of_def split: if_splits)
next
  case (Remove i)
  then show ?thesis
    using wf_remove [OF w, of i] e by (auto simp: step_of_def split: if_splits)
next
  case (Get i)
  then show ?thesis using w e by auto
next
  case Free
  then show ?thesis using w e wf_free [OF w]
    by (auto split: prod.splits option.splits)
qed

lemma well_formed_count_le_capacity:
  assumes "well_formed v"
  shows "count_le_capacity v"
proof -
  note n = wf_nat [OF assms]
  have nz: "tsz v \<noteq> 0" using n(1) by (rule tsz_pos_unat)
  have "unat (iterator v) div unat (tsz v) \<le> unat (length_v v) div unat (tsz v)"
    using n(5) by (rule div_le_mono)
  then have "iterator v div tsz v \<le> length_v v div tsz v"
    by (simp add: word_le_nat_alt unat_div)
  then show ?thesis
    using nz by (simp add: count_le_capacity_def vector_count_def vector_maxsize_def)
qed

text \<open>
  On a well-formed vector the loop of \<open>vector_clear\<close> ends: its counter runs through
  the multiples of the element size up to \<open>length\<close> without wrapping around. So
  every call returns.
\<close>

lemma clear_loop_returns:
  assumes w: "well_formed v"
  shows "unat (tsz v) dvd unat i \<Longrightarrow> unat i \<le> unat (length_v v)
           \<Longrightarrow> \<exists>r. clear_loop v d i p ok = Some r"
proof (induction "unat (length_v v) - unat i" arbitrary: i p ok rule: less_induct)
  case less
  note n = wf_nat [OF w]
  show ?case
  proof (cases "i < length_v v")
    case False
    then show ?thesis by (simp add: clear_loop.simps)
  next
    case True
    then have lt: "unat i < unat (length_v v)" by (simp add: word_less_nat_alt)
    have room: "unat i + unat (tsz v) \<le> unat (length_v v)"
      using less.prems(1) n(3) lt by (rule dvd_step)
    have "unat (length_v v) < 2 ^ 64"
      using unsigned_less [of "length_v v", where ?'a = nat] by simp
    then have "unat i + unat (tsz v) < 2 ^ 64" using room by simp
    then have s: "unat (i + tsz v) = unat i + unat (tsz v)"
      by (simp add: unat_add_lem [THEN iffD1])
    have "\<exists>r. clear_loop v d (i + tsz v)
             (fst (memcpy_from p (uint i) d (unat (tsz v))))
             (ok \<and> snd (memcpy_from p (uint i) d (unat (tsz v)))) = Some r"
    proof (rule less.hyps)
      show "unat (length_v v) - unat (i + tsz v) < unat (length_v v) - unat i"
        using s lt n(2) by simp
      show "unat (tsz v) dvd unat (i + tsz v)"
        using s less.prems(1) by simp
      show "unat (i + tsz v) \<le> unat (length_v v)"
        using s room by simp
    qed
    then show ?thesis
      using True by (subst clear_loop.simps) simp
  qed
qed

lemma vector_clear_returns:
  assumes "well_formed v"
  shows "\<exists>r. vector_clear v d = Some r"
proof -
  obtain r where "clear_loop v d 0 (data v) True = Some r"
    using clear_loop_returns [OF assms, of 0 d "data v" True] by auto
  then show ?thesis
    by (cases r) (simp add: vector_clear_def)
qed

lemma exec_not_Diverges:
  assumes "well_formed v"
  shows "exec v c \<noteq> Diverges"
proof (cases c)
  case (Clear d)
  then show ?thesis
    using vector_clear_returns [OF assms, of d]
    by (auto simp: step_of_def split: if_splits)
next
  case Free
  then show ?thesis by (auto simp: vector_free_def)
qed (simp_all add: step_of_def)

text \<open>
  Along an admitted sequence from a well-formed vector every call returns, and the
  vector it leaves is well-formed.
\<close>

lemma run_admitted:
  assumes "well_formed v" and "admitted v cs"
  shows "length (run v cs) = length cs \<and>
         (\<forall>s \<in> set (run v cs). returned_count_le_capacity s)"
  using assms
proof (induction cs arbitrary: v)
  case Nil
  then show ?case by simp
next
  case (Cons c cs)
  have ad: "admits v c" using Cons.prems(2) by simp
  have nd: "exec v c \<noteq> Diverges"
    using Cons.prems(1) by (rule exec_not_Diverges)
  have nu: "exec v c \<noteq> Undefined"
    using Cons.prems(2) by (auto split: step.splits)
  obtain ok v' where e: "exec v c = Returns ok v'"
    using nd nu by (cases "exec v c") simp_all
  have w': "well_formed v'"
    using Cons.prems(1) ad e by (rule exec_well_formed)
  have ad': "admitted v' cs"
    using Cons.prems(2) e by simp
  have "length (run v' cs) = length cs \<and>
        (\<forall>s \<in> set (run v' cs). returned_count_le_capacity s)"
    using w' ad' by (rule Cons.IH)
  moreover have "count_le_capacity v'"
    using w' by (rule well_formed_count_le_capacity)
  ultimately show ?case
    using e by simp
qed

text \<open>
  Claim C4, amended. Starting from a vector that satisfies invariants I1 to I3, along
  every sequence of calls of \<open>vector_realloc\<close>, \<open>vector_move\<close>, \<open>vector_clear\<close>,
  \<open>vector_insert\<close>, \<open>vector_replace\<close>, \<open>vector_replace_unsafe\<close>, \<open>vector_remove\<close>,
  \<open>vector_get\<close> and \<open>vector_free\<close> that is admitted (every call keeps its copies
  inside the block, so none has undefined behaviour; no size computation overflows;
  a \<open>vector_realloc\<close> asks for more than zero bytes and, when granted, for at least
  the live length; an insert into a full vector finds a capacity above zero and has
  its growth granted), every call of the sequence returns and
  \<open>count() \<le> capacity()\<close> holds after every call, successful or not.
\<close>

theorem count_le_capacity_admitted:
  assumes "well_formed v" and "admitted v cs"
  shows "length (run v cs) = length cs \<and>
         (\<forall>s \<in> set (run v cs). returned_count_le_capacity s)"
  using assms by (rule run_admitted)

text \<open>The sequence \<open>byte_calls\<close>, step by step.\<close>

lemma bv_fields:
  "tsz (bv len it blk) = 1" "length_v (bv len it blk) = len" "iterator (bv len it blk) = it"
  by (simp_all add: bv_def tsz_def)

lemma grants_zeroing: "grants zeroing"
  by (simp add: grants_def zeroing_def)

lemmas bv_defs = bv_def step_of_def model_defs map_replicate_const

lemma byte_step1:
  "exec (bv 2 2 (Some [7, 8])) (Insert zeroing [9] 2)
     = Returns True (bv 4 3 (Some [7, 8, 9, 0]))"
  by (simp add: bv_defs)
lemma byte_step2:
  "exec (bv 4 3 (Some [7, 8, 9, 0])) (Remove 0)
     = Returns True (bv 4 2 (Some [8, 9, 9, 0]))"
  by (simp add: bv_defs)
lemma byte_step3:
  "exec (bv 4 2 (Some [8, 9, 9, 0])) (Move 1)
     = Returns True (bv 4 1 (Some [8, 9, 9, 0]))"
  by (simp add: bv_defs)
lemma byte_step4:
  "exec (bv 4 1 (Some [8, 9, 9, 0])) (Realloc zeroing 3)
     = Returns True (bv 3 1 (Some [8, 9, 9]))"
  by (simp add: bv_defs)
lemma byte_step5:
  "exec (bv 3 1 (Some [8, 9, 9])) (Clear [5])
     = Returns True (bv 3 0 (Some [5, 5, 5]))"
  by (simp add: bv_defs vector_clear_def clear_loop.simps)
lemma byte_step6:
  "exec (bv 3 0 (Some [5, 5, 5])) (Get 0)
     = Returns True (bv 3 0 (Some [5, 5, 5]))"
  by (simp add: bv_defs)
lemma byte_step7:
  "exec (bv 3 0 (Some [5, 5, 5])) (Replace [1] 0)
     = Returns False (bv 3 0 (Some [5, 5, 5]))"
  by (simp add: bv_defs)
lemma byte_step8:
  "exec (bv 3 0 (Some [5, 5, 5])) Free
     = Returns True (bv 3 0 None)"
  by (simp add: bv_defs)

lemmas byte_steps = byte_step1 byte_step2 byte_step3 byte_step4 byte_step5 byte_step6
  byte_step7 byte_step8

lemma byte_run: "run (bv 2 2 (Some [7, 8])) byte_calls = byte_trace"
  by (simp add: byte_calls_def byte_trace_def byte_steps del: exec.simps)

lemma byte_admitted: "admitted (bv 2 2 (Some [7, 8])) byte_calls"
  by (simp add: byte_calls_def byte_steps bv_fields grants_zeroing del: exec.simps)

lemma byte_well_formed: "well_formed (bv 2 2 (Some [7, 8]))"
  by (simp add: well_formed_def bv_fields) (simp add: bv_def word_sless_alt)

theorem count_le_capacity_admitted_witness:
  "well_formed (bv 2 2 (Some [7, 8])) \<and> admitted (bv 2 2 (Some [7, 8])) byte_calls \<and>
   run (bv 2 2 (Some [7, 8])) byte_calls = byte_trace \<and>
   length byte_trace = length byte_calls \<and>
   list_all returned_count_le_capacity byte_trace"
  using count_le_capacity_admitted [OF byte_well_formed byte_admitted]
    byte_well_formed byte_admitted byte_run
  by (simp add: list_all_iff)

text \<open>
  Two sequences that are not admitted, because a call leaves the block: an insert
  after \<open>vector_free\<close> copies through \<open>NULL\<close>, and \<open>vector_remove\<close> at
  \<open>index = count()\<close> of a vector that is not empty moves \<open>2^64 - 4\<close> bytes.
\<close>

lemma undefined_calls_not_admitted:
  "run fresh4 [Free, Insert zeroing (elem 10) 0]
     = [Returns True (fresh4\<lparr>data := None\<rparr>), Undefined] \<and>
   \<not> admitted fresh4 [Free, Insert zeroing (elem 10) 0] \<and>
   run one4 [Remove 1] = [Undefined] \<and> \<not> admitted one4 [Remove 1]"
  by (simp add: fresh4_eq one4_def step_of_def model_defs)

text \<open>The third call of the sequence below, on the vector holding two elements.\<close>

lemma shrink_two4:
  "report (exec two4 (Realloc zeroing 1)) = Some (True, Some 2, Some 1, False)"
  by (simp add: two4_def step_of_def model_defs count_le_capacity_def word_le_nat_alt)

text \<open>
  Claim C4 as stated fails. After two inserts into the fresh container of four 4-byte
  elements, \<open>vector_realloc(1)\<close> is granted, returns true and leaves \<open>count() = 2\<close>
  with \<open>capacity() = 1\<close>. The three calls stay inside the block. Each entry is the
  result of a call, then \<open>count()\<close>, \<open>capacity()\<close> and whether
  \<open>count() \<le> capacity()\<close>.
\<close>

theorem count_le_capacity_counterexample:
  "map report
     (run fresh4 [Insert zeroing (elem 10) 0, Insert zeroing (elem 20) 1, Realloc zeroing 1])
     = [Some (True, Some 1, Some 4, True), Some (True, Some 2, Some 4, True),
        Some (True, Some 2, Some 1, False)]"
proof -
  have a: "exec fresh4 (Insert zeroing (elem 10) 0) = Returns True one4"
    and b: "exec one4 (Insert zeroing (elem 20) 1) = Returns True two4"
    by (simp_all add: step_of_def insert_fresh4 insert_one4)
  have r1: "report (Returns True one4) = Some (True, Some 1, Some 4, True)"
    and r2: "report (Returns True two4) = Some (True, Some 2, Some 4, True)"
    by (simp_all add: one4_def two4_def vector_count_def vector_maxsize_def tsz_def
        count_le_capacity_def)
  obtain ok v' where c: "exec two4 (Realloc zeroing 1) = Returns ok v'"
    using shrink_two4 by (cases "exec two4 (Realloc zeroing 1)") simp_all
  then have r3: "report (Returns ok v') = Some (True, Some 2, Some 1, False)"
    using shrink_two4 by simp
  show ?thesis
    by (simp add: a b c r1 r2 r3 del: exec.simps report.simps)
qed

section \<open>Calls with a valid index\<close>

text \<open>
  What the copies of \<open>vector_insert\<close> and \<open>vector_remove\<close> do on an allocated,
  well-formed vector, for each position of the index relative to \<open>count()\<close>.
\<close>

lemma index_le_count:
  assumes c: "vector_count v = Some c" and le: "index \<le> c"
  shows "unat (index * tsz v) = unat index * unat (tsz v)"
    and "unat index * unat (tsz v) \<le> unat (iterator v)"
proof -
  have nz: "tsz v \<noteq> 0" and ce: "c = iterator v div tsz v"
    using c by (simp_all add: vector_count_def split: if_splits)
  have "unat index \<le> unat (iterator v) div unat (tsz v)"
    using le ce by (simp add: word_le_nat_alt unat_div)
  then have "unat index * unat (tsz v) \<le> unat (iterator v) div unat (tsz v) * unat (tsz v)"
    by (rule mult_le_mono1)
  also have "\<dots> \<le> unat (iterator v)"
    by (rule div_times_less_eq_dividend)
  finally show b: "unat index * unat (tsz v) \<le> unat (iterator v)" .
  have "unat (iterator v) < 2 ^ 64"
    using unsigned_less [of "iterator v", where ?'a = nat] by simp
  then have "unat index * unat (tsz v) < 2 ^ 64" using b by simp
  then show "unat (index * tsz v) = unat index * unat (tsz v)"
    by (simp add: unat_mult_lem [THEN iffD1])
qed

lemma in_block_Some_iff:
  "in_block (Some bs) (int off) n \<longleftrightarrow> n = 0 \<or> off + n \<le> length bs"
  by (auto simp: in_block_def)

lemma in_block_SomeI:
  assumes "off + n \<le> length bs"
  shows "in_block (Some bs) (int off) n"
  using assms by (simp add: in_block_def)

text \<open>
  An admitted insert at an index up to \<open>count()\<close> returns true with both copies
  inside the block, and the count goes up by one.
\<close>

lemma vector_insert_succeeds:
  assumes al: "allocated v" and w: "well_formed v" and ad: "admits v (Insert a d index)"
    and c: "vector_count v = Some c" and le: "index \<le> c"
    and src: "unat (tsz v) \<le> length d"
  shows "ret (vector_insert a v d index) = True \<and> inbounds (vector_insert a v d index) \<and>
         vector_count (vec (vector_insert a v d index)) = Some (c + 1)"
proof -
  define v1 where "v1 = (if iterator v = length_v v
                 then vec (vector_realloc a v (push_bit 1 (length_v v))) else v)"
  define B where "B = index * tsz v"
  define m1 where
    "m1 = memmove_within (data v1) (uint (B + tsz v1)) (uint B) (unat (iterator v1 - B))"
  define m2 where "m2 = memcpy_from (fst m1) (uint B) d (unat (tsz v1))"
  note u = vector_insert_unfold [OF v1_def B_def m1_def m2_def]
  have g: "well_formed v1" and room: "unat (iterator v1) + unat (tsz v1) \<le> unat (length_v v1)"
    using insert_grown_room [OF w ad v1_def] by simp_all
  have al1: "allocated v1"
    using al by (simp add: v1_def vector_realloc_allocated)
  have z1: "tsz v1 = tsz v" and i1: "iterator v1 = iterator v"
    by (simp_all add: v1_def vector_realloc_fields)
  obtain bs where bs: "data v1 = Some bs" and len: "length bs = unat (length_v v1)"
    using al1 by (rule allocatedE)
  have L: "length bs < 2 ^ 64"
    using len unsigned_less [of "length_v v1", where ?'a = nat] by simp
  have uB: "unat B = unat index * unat (tsz v)" and BI: "unat B \<le> unat (iterator v)"
    using index_le_count [OF c le] by (simp_all add: B_def)
  have leW: "B \<le> iterator v1"
    using BI i1 by (simp add: word_le_nat_alt)
  then have ng: "\<not> B > iterator v1" by (simp add: not_less)
  have sub: "unat (iterator v1 - B) = unat (iterator v) - unat B"
    using leW i1 by (simp add: unat_sub)
  have BT: "unat B + unat (tsz v) \<le> length bs"
    using BI room i1 z1 len by simp
  then have "unat B + unat (tsz v) < 2 ^ 64" using L by simp
  then have uBT: "unat (B + tsz v) = unat B + unat (tsz v)"
    by (simp add: unat_add_lem [THEN iffD1])
  have s1: "in_block (Some bs) (uint B) (unat (iterator v1 - B))"
    unfolding uint_nat using BI room i1 len sub by (intro in_block_SomeI) simp
  have s2: "in_block (Some bs) (uint (B + tsz v1)) (unat (iterator v1 - B))"
    unfolding uint_nat z1 uBT using BI room i1 z1 len sub by (intro in_block_SomeI) simp
  have "snd m1 \<and> (\<exists>b1. fst m1 = Some b1 \<and> length b1 = length bs)"
  proof (cases "unat (iterator v1 - B) = 0")
    case True
    then show ?thesis by (simp add: m1_def bs memmove_within_def)
  next
    case False
    then have e: "m1 = (mem_write (Some bs) (uint (B + tsz v1))
                          (mem_read (Some bs) (uint B) (unat (iterator v1 - B))), True)"
      using s1 s2 by (simp add: m1_def bs memmove_within_def)
    have "nat (uint B) + unat (iterator v1 - B) \<le> length bs"
      using BI room i1 len sub by simp
    moreover have "nat (uint (B + tsz v1)) + unat (iterator v1 - B) \<le> length bs"
      using BI room i1 z1 len sub uBT by simp
    ultimately show ?thesis
      unfolding e by (simp add: mem_write_def mem_read_def min_absorb2)
  qed
  then obtain b1 where m1T: "snd m1" and b1: "fst m1 = Some b1" and len1: "length b1 = length bs"
    by blast
  have T: "0 < unat (tsz v)" using wf_nat(2) [OF w] .
  have "in_block (Some b1) (uint B) (unat (tsz v))"
    unfolding uint_nat using BT len1 by (intro in_block_SomeI) simp
  then have m2T: "snd m2"
    using src by (simp add: m2_def b1 z1 memcpy_from_def)
  have r: "vector_insert a v d index =
             \<lparr> ret = True, vec = v1\<lparr>data := fst m2, iterator := iterator v1 + tsz v1\<rparr>,
               inbounds = (snd m1 \<and> snd m2) \<rparr>"
    unfolding u using ng by simp
  have nz: "tsz v \<noteq> 0" and ce: "c = iterator v div tsz v"
    using c by (simp_all add: vector_count_def split: if_splits)
  have "unat (iterator v) + unat (tsz v) < 2 ^ 64"
    using room i1 z1 len L by simp
  then have su: "unat (iterator v + tsz v) = unat (iterator v) + unat (tsz v)"
    by (simp add: unat_add_lem [THEN iffD1])
  have "unat ((iterator v + tsz v) div tsz v) = unat (iterator v div tsz v + 1)"
  proof -
    have "unat ((iterator v + tsz v) div tsz v) = (unat (iterator v) + unat (tsz v)) div unat (tsz v)"
      by (simp add: unat_div su)
    also have "\<dots> = unat (iterator v) div unat (tsz v) + 1"
      using T by (simp add: div_add_self2)
    also have "\<dots> = unat (iterator v div tsz v + 1)"
    proof -
      have "unat (iterator v) div unat (tsz v) + 1 \<le> unat (iterator v) + unat (tsz v)"
        using T by (metis add_mono div_le_dividend Suc_leI One_nat_def)
      then have "unat (iterator v div tsz v) + unat (1::64 word) < 2 ^ 64"
        using \<open>unat (iterator v) + unat (tsz v) < 2 ^ 64\<close> by (simp add: unat_div)
      then show ?thesis
        by (simp add: unat_add_lem [THEN iffD1] unat_div)
    qed
    finally show ?thesis .
  qed
  then have cnt: "(iterator v + tsz v) div tsz v = c + 1"
    by (simp add: word_unat_eq_iff ce)
  have "vector_count (v1\<lparr>data := fst m2, iterator := iterator v1 + tsz v1\<rparr>) = Some (c + 1)"
    using nz cnt z1 i1 by (simp add: vector_count_def tsz_def)
  then show ?thesis
    unfolding r using m1T m2T by simp
qed

lemma vector_remove_unfold:
  assumes "B = index * tsz v"
    and "it = iterator v - (if iterator v > 0 then tsz v else 0)"
    and "m = memmove_within (data v) (uint B) (uint B + sint (typeSize v)) (unat (it - B))"
  shows "vector_remove v index =
           (if data v = None \<or> B > iterator v then \<lparr> ret = False, vec = v, inbounds = True \<rparr>
            else \<lparr> ret = True, vec = v\<lparr>iterator := it, data := fst m\<rparr>, inbounds = snd m \<rparr>)"
  unfolding assms vector_remove_def Let_def by simp

text \<open>Removing below the count: the shift stays inside the block, the count drops by one.\<close>

lemma vector_remove_below_count:
  assumes al: "allocated v" and w: "well_formed v"
    and c: "vector_count v = Some c" and lt: "index < c"
  shows "ret (vector_remove v index) = True \<and> inbounds (vector_remove v index) \<and>
         vector_count (vec (vector_remove v index)) = Some (c - 1)"
proof -
  define B where "B = index * tsz v"
  define it where "it = iterator v - (if iterator v > 0 then tsz v else 0)"
  define m where
    "m = memmove_within (data v) (uint B) (uint B + sint (typeSize v)) (unat (it - B))"
  note u = vector_remove_unfold [OF B_def it_def m_def]
  note n = wf_nat [OF w]
  obtain bs where bs: "data v = Some bs" and len: "length bs = unat (length_v v)"
    using al by (rule allocatedE)
  have nz: "tsz v \<noteq> 0" and ce: "c = iterator v div tsz v"
    using c by (simp_all add: vector_count_def split: if_splits)
  have "unat index < unat (iterator v) div unat (tsz v)"
    using lt ce by (simp add: word_less_nat_alt unat_div)
  then have "unat index + 1 \<le> unat (iterator v) div unat (tsz v)"
    by simp
  then have "(unat index + 1) * unat (tsz v)
               \<le> unat (iterator v) div unat (tsz v) * unat (tsz v)"
    by (rule mult_le_mono1)
  also have "\<dots> \<le> unat (iterator v)"
    by (rule div_times_less_eq_dividend)
  finally have uB1: "(unat index + 1) * unat (tsz v) \<le> unat (iterator v)" .
  have uB: "unat B = unat index * unat (tsz v)"
    using index_le_count(1) [OF c less_imp_le [OF lt]] by (simp add: B_def)
  have BT: "unat B + unat (tsz v) \<le> unat (iterator v)"
    using uB1 uB by (simp add: algebra_simps)
  have pos: "iterator v > 0"
    using BT n(2) by (simp add: word_less_nat_alt)
  have ite: "it = iterator v - tsz v"
    using pos by (simp add: it_def)
  have TI: "tsz v \<le> iterator v"
    using BT by (simp add: word_le_nat_alt)
  have uit: "unat it = unat (iterator v) - unat (tsz v)"
    using TI by (simp add: ite unat_sub)
  have Bit: "B \<le> it"
    using BT uit by (simp add: word_le_nat_alt)
  have un: "unat (it - B) = unat (iterator v) - unat (tsz v) - unat B"
    using Bit uit by (simp add: unat_sub)
  have ng: "\<not> (data v = None \<or> B > iterator v)"
    using bs BT by (simp add: word_less_nat_alt)
  have ts: "sint (typeSize v) = int (unat (tsz v))"
    unfolding uint_nat [symmetric] using tsz_pos_uint(1) [OF n(1)] by simp
  have src: "uint B + sint (typeSize v) = int (unat B + unat (tsz v))"
    by (simp only: ts uint_nat of_nat_add)
  have s1: "in_block (Some bs) (uint B) (unat (it - B))"
    unfolding uint_nat using BT n(5) len un by (intro in_block_SomeI) simp
  have s2: "in_block (Some bs) (uint B + sint (typeSize v)) (unat (it - B))"
    unfolding src using BT n(5) len un by (intro in_block_SomeI) simp
  have mT: "snd m"
    using s1 s2 by (simp add: m_def bs memmove_within_def)
  have r: "vector_remove v index =
             \<lparr> ret = True, vec = v\<lparr>iterator := it, data := fst m\<rparr>, inbounds = snd m \<rparr>"
    unfolding u using ng by simp
  have "unat (it div tsz v) = unat (iterator v div tsz v) - 1"
  proof -
    have "unat (it div tsz v) = (unat (iterator v) - unat (tsz v)) div unat (tsz v)"
      by (simp add: unat_div uit)
    also have "\<dots> = unat (iterator v) div unat (tsz v) - 1"
      using le_div_geq [of "unat (tsz v)" "unat (iterator v)"] n(2) BT by simp
    finally show ?thesis by (simp add: unat_div)
  qed
  moreover have "c \<noteq> 0" using lt by (metis word_not_simps(1))
  ultimately have "it div tsz v = c - 1"
    by (simp add: word_unat_eq_iff ce unat_minus_one)
  then have "vector_count (v\<lparr>iterator := it, data := fst m\<rparr>) = Some (c - 1)"
    using nz by (simp add: vector_count_def tsz_def)
  then show ?thesis
    unfolding r using mT by simp
qed

text \<open>Removing index 0 from an empty vector: nothing moves, the count stays 0.\<close>

lemma vector_remove_empty:
  assumes "data v \<noteq> None" and "iterator v = 0"
  shows "ret (vector_remove v 0) = True \<and> inbounds (vector_remove v 0) \<and>
         iterator (vec (vector_remove v 0)) = 0"
  using assms by (simp add: vector_remove_def Let_def memmove_within_def)

text \<open>
  Removing at \<open>index = count()\<close> from a vector that is not empty: the call returns
  true, but the length given to \<open>memmove\<close> wraps around and the copy leaves the block.
\<close>

lemma vector_remove_count_out_of_bounds:
  assumes al: "allocated v" and w: "well_formed v"
    and c: "vector_count v = Some c" and pos: "0 < c"
  shows "ret (vector_remove v c) = True \<and> \<not> inbounds (vector_remove v c) \<and>
         iterator (vec (vector_remove v c)) = iterator v - tsz v \<and>
         unat (iterator v - tsz v - c * tsz v) = 2 ^ 64 - unat (tsz v)"
proof -
  define B where "B = c * tsz v"
  define it where "it = iterator v - (if iterator v > 0 then tsz v else 0)"
  define m where
    "m = memmove_within (data v) (uint B) (uint B + sint (typeSize v)) (unat (it - B))"
  note u = vector_remove_unfold [OF B_def it_def m_def]
  note n = wf_nat [OF w]
  obtain bs where bs: "data v = Some bs" and len: "length bs = unat (length_v v)"
    using al by (rule allocatedE)
  have "iterator v mod tsz v = 0"
    using w by (simp add: well_formed_def)
  then have BI: "B = iterator v"
    using count_times_tsz [OF c] by (simp add: B_def)
  have nz: "tsz v \<noteq> 0" and ce: "c = iterator v div tsz v"
    using c by (simp_all add: vector_count_def split: if_splits)
  have ipos: "iterator v > 0"
  proof (rule ccontr)
    assume "\<not> iterator v > 0"
    then have "iterator v = 0" by (simp add: word_gt_0)
    then have "c = 0" using ce by simp
    then show False using pos by simp
  qed
  have ite: "it = iterator v - tsz v"
    using ipos by (simp add: it_def)
  have "it - B = 0 - tsz v"
    by (simp add: ite BI)
  moreover have "unat (0 - tsz v) = 2 ^ 64 - unat (tsz v)"
    using unat_sub_if_size [of 0 "tsz v"] n(2) by (simp add: word_size)
  ultimately have un: "unat (it - B) = 2 ^ 64 - unat (tsz v)"
    by simp
  have T: "unat (tsz v) < 2147483648"
    using n(1) by (rule tsz_pos_unat)
  have npos: "unat (it - B) \<noteq> 0"
    using un T by simp
  have L: "length bs < 2 ^ 64"
    using len unsigned_less [of "length_v v", where ?'a = nat] by simp
  have "unat (tsz v) \<le> unat B"
    using dvd_imp_le [OF n(4)] ipos unfolding BI by (simp add: word_less_nat_alt)
  then have "\<not> unat B + unat (it - B) \<le> length bs"
    using L un T by simp
  then have "\<not> in_block (Some bs) (uint B) (unat (it - B))"
    unfolding uint_nat in_block_Some_iff using npos by simp
  then have mF: "\<not> snd m"
    using npos by (simp add: m_def bs memmove_within_def)
  have ng: "\<not> (data v = None \<or> B > iterator v)"
    using bs BI by simp
  have r: "vector_remove v c =
             \<lparr> ret = True, vec = v\<lparr>iterator := it, data := fst m\<rparr>, inbounds = snd m \<rparr>"
    unfolding u using ng by simp
  show ?thesis
    unfolding r using mF ite un by (simp add: B_def)
qed

end
